theory Spec2Isabelle
  imports Main "HOL-Library.Multiset"
begin

section \<open>Python primitives used by the codecs\<close>

text \<open>
  Errors of the Python run time and of the codecs, as values. \<open>ValueError\<close> is raised
  in two places of \<^verbatim>\<open>io_vtu.py\<close>: for a polyhedron whose declared face count does
  not match the decoded faces (the broken list is carried), and for an unsupported VTK
  cell type (the type tag is carried). \<open>MaxOfEmpty\<close> is the \<open>ValueError\<close> of Python's
  \<open>max([])\<close>.
\<close>

datatype py_error =
    IndexError
  | MaxOfEmpty
  | BrokenPolyhedron "int list"
  | UnsupportedCellType int

text \<open>Python's \<open>str(i)\<close> of an integer: decimal digits, with a leading minus sign.\<close>

definition digit_char :: "nat \<Rightarrow> char" where
  "digit_char d = ''0123456789'' ! d"

fun str_nat :: "nat \<Rightarrow> string" where
  "str_nat n = (if n < 10 then [digit_char n] else str_nat (n div 10) @ [digit_char (n mod 10)])"

declare str_nat.simps [simp del]

definition str :: "int \<Rightarrow> string" where
  "str i = (if i < 0 then CHR ''-'' # str_nat (nat (- i)) else str_nat (nat i))"

text \<open>Python's \<open>sep.join(xs)\<close>.\<close>

fun join :: "string \<Rightarrow> string list \<Rightarrow> string" where
  "join sep [] = []"
| "join sep [x] = x"
| "join sep (x # y # ys) = x @ sep @ join sep (y # ys)"

text \<open>
  Python's \<open>xs[a:b]\<close> for integers \<open>a\<close> and \<open>b\<close>: a negative bound counts from the
  end, and both bounds are clipped to the list.
\<close>

definition clip_index :: "nat \<Rightarrow> int \<Rightarrow> nat" where
  "clip_index n i = (if i < 0 then nat (max 0 (int n + i)) else min n (nat i))"

definition py_slice :: "'a list \<Rightarrow> int \<Rightarrow> int \<Rightarrow> 'a list" where
  "py_slice xs a b = (let lo = clip_index (length xs) a; hi = clip_index (length xs) b
                      in take (hi - lo) (drop lo xs))"

text \<open>Python's \<open>xs[i]\<close>: a negative index counts from the end; out of range raises.\<close>

definition py_get :: "'a list \<Rightarrow> int \<Rightarrow> py_error + 'a" where
  "py_get xs i =
     (if 0 \<le> i \<and> i < int (length xs) then Inr (xs ! nat i)
      else if i < 0 \<and> - int (length xs) \<le> i then Inr (xs ! nat (int (length xs) + i))
      else Inl IndexError)"

section \<open>VTU import: the canonical face key\<close>

text \<open>
  \<^verbatim>\<open>get_vert_string\<close> of \<^verbatim>\<open>io_vtu.py\<close>: the list is copied and sorted ascending, then
  each index is appended to the string followed by a comma.
\<close>

definition get_vert_string :: "int list \<Rightarrow> string" where
  "get_vert_string vilist =
     (let sortlist = sort vilist
      in foldl (\<lambda>string i. string @ str i @ '','') [] sortlist)"

section \<open>VTU import: the topology store\<close>

text \<open>
  The VTU codec works on the collections \<^verbatim>\<open>ug.ugfaces\<close> and \<^verbatim>\<open>ug.ugcells\<close> of the
  module \<^verbatim>\<open>ug\<close>, which the codec imports. Objects are shared by reference in the
  Python code (the face map, the cells and the global lists hold the same face objects),
  so the store is explicit here: a face or a cell is referred to by its position in the
  global list, and an update of an object is an update of the list at that position.
\<close>

record ugface =
  face_ugverts :: "int list"
  owner :: "nat option"
  neighbour :: "nat option"

record ugcell =
  cell_ugfaces :: "nat list"
  cell_ugverts :: "int list"
  cell_deleted :: bool

record ug =
  ugfaces :: "ugface list"
  ugcells :: "ugcell list"

type_synonym facemap = "string \<rightharpoonup> nat"

text \<open>
  Modelled from the spec: the class \<^verbatim>\<open>ug.UGCell\<close> (module \<^verbatim>\<open>ug\<close> is imported by
  \<^verbatim>\<open>io_vtu.py\<close>). A cell is created during import with an empty face collection, an
  empty derived vertex collection and the deleted flag unset, and it joins the collection
  of cells of the topology model; \<^verbatim>\<open>io_vtu.py\<close> never appends a cell itself and its export
  walks \<^verbatim>\<open>ug.ugcells\<close>.
\<close>

definition UGCell :: "ug \<Rightarrow> ug" where
  "UGCell st = st\<lparr>ugcells := ugcells st @ [\<lparr>cell_ugfaces = [], cell_ugverts = [], cell_deleted = False\<rparr>]\<rparr>"

text \<open>
  Modelled from the spec: the class \<^verbatim>\<open>ug.UGFace\<close>. A face is created with its ordered
  vertex references, no owner and no neighbour, and joins the collection of faces
  (\<^verbatim>\<open>create_boundary_faces\<close> walks \<^verbatim>\<open>ug.ugfaces\<close>).
\<close>

definition UGFace :: "int list \<Rightarrow> ug \<Rightarrow> ug" where
  "UGFace verts st = st\<lparr>ugfaces := ugfaces st @ [\<lparr>face_ugverts = verts, owner = None, neighbour = None\<rparr>]\<rparr>"

text \<open>
  Modelled from the spec: the method \<^verbatim>\<open>UGCell.add_face_and_verts\<close>. The face is appended
  to the cell's face collection, and the cell's vertex collection stays the deduplicated
  union of its faces' vertices.
\<close>

definition add_face_and_verts :: "nat \<Rightarrow> nat \<Rightarrow> ug \<Rightarrow> ug" where
  "add_face_and_verts c ugf st =
     (let cell = ugcells st ! c;
          verts = face_ugverts (ugfaces st ! ugf)
      in st\<lparr>ugcells := (ugcells st)[c := cell\<lparr>
             cell_ugfaces := cell_ugfaces cell @ [ugf],
             cell_ugverts := cell_ugverts cell @ remdups (filter (\<lambda>v. v \<notin> set (cell_ugverts cell)) verts)\<rparr>]\<rparr>)"

text \<open>The assignments \<^verbatim>\<open>ugf.neighbour = c\<close> and \<^verbatim>\<open>ugf.owner = c\<close>.\<close>

definition set_neighbour :: "nat \<Rightarrow> nat \<Rightarrow> ug \<Rightarrow> ug" where
  "set_neighbour ugf c st = st\<lparr>ugfaces := (ugfaces st)[ugf := (ugfaces st ! ugf)\<lparr>neighbour := Some c\<rparr>]\<rparr>"

definition set_owner :: "nat \<Rightarrow> nat \<Rightarrow> ug \<Rightarrow> ug" where
  "set_owner ugf c st = st\<lparr>ugfaces := (ugfaces st)[ugf := (ugfaces st ! ugf)\<lparr>owner := Some c\<rparr>]\<rparr>"

section \<open>VTU import: the face deduplication engine\<close>

fun map_err :: "('a \<Rightarrow> 'e + 'b) \<Rightarrow> 'a list \<Rightarrow> 'e + 'b list" where
  "map_err f [] = Inr []"
| "map_err f (x # xs) =
     (case f x of Inl e \<Rightarrow> Inl e
      | Inr y \<Rightarrow> (case map_err f xs of Inl e \<Rightarrow> Inl e | Inr ys \<Rightarrow> Inr (y # ys)))"

text \<open>
  The vertex list of one face in \<^verbatim>\<open>add_cell_faces\<close>: a polyhedron's face holds real
  vertex indices, any other face holds positions in the cell's vertex list.
\<close>

definition real_vilist :: "bool \<Rightarrow> int list \<Rightarrow> int list \<Rightarrow> py_error + int list" where
  "real_vilist is_polyhedron vilist fisverts =
     (if is_polyhedron then Inr fisverts else map_err (py_get vilist) fisverts)"

text \<open>
  \<^verbatim>\<open>add_cell_faces\<close> (nested in \<^verbatim>\<open>vtu_add_cell\<close>). An exception leaves the topology as
  it is at that moment, so the error carries the store.
\<close>

fun add_cell_faces ::
  "nat \<Rightarrow> int list list \<Rightarrow> int list \<Rightarrow> facemap \<Rightarrow> bool \<Rightarrow> ug \<Rightarrow> (py_error \<times> ug) + (facemap \<times> ug)" where
  "add_cell_faces c [] vilist facemap is_polyhedron st = Inr (facemap, st)"
| "add_cell_faces c (fisverts # fis) vilist facemap is_polyhedron st =
     (case real_vilist is_polyhedron vilist fisverts of
        Inl e \<Rightarrow> Inl (e, st)
      | Inr rv \<Rightarrow>
          (let string = get_vert_string rv
           in case facemap string of
                Some ugf \<Rightarrow>
                  add_cell_faces c fis vilist facemap is_polyhedron
                    (add_face_and_verts c ugf (set_neighbour ugf c st))
              | None \<Rightarrow>
                  (let ugf = length (ugfaces st)
                   in add_cell_faces c fis vilist (facemap(string \<mapsto> ugf)) is_polyhedron
                        (add_face_and_verts c ugf (set_owner ugf c (UGFace rv st))))))"

text \<open>
  \<^verbatim>\<open>get_polyhedron_fis\<close>: the loop over \<^verbatim>\<open>polyfacelist[1:]\<close> with its variables
  \<open>status\<close>, \<open>numVerts\<close>, \<open>vertlist\<close> and \<open>fis\<close>. The first pass of the loop sets
  \<open>numVerts\<close> and \<open>vertlist\<close> before they are read, since \<open>status\<close> starts true.
\<close>

fun polyhedron_loop :: "int list \<Rightarrow> bool \<Rightarrow> int \<Rightarrow> int list \<Rightarrow> int list list \<Rightarrow> int list list" where
  "polyhedron_loop [] status numVerts vertlist fis = fis"
| "polyhedron_loop (n # ns) status numVerts vertlist fis =
     (let numVerts1 = (if status then n else numVerts);
          vertlist1 = (if status then [] else vertlist @ [n])
      in if int (length vertlist1) = numVerts1
         then polyhedron_loop ns True numVerts1 vertlist1 (fis @ [vertlist1])
         else polyhedron_loop ns False numVerts1 vertlist1 fis)"

definition get_polyhedron_fis :: "int list \<Rightarrow> py_error + int list list" where
  "get_polyhedron_fis polyfacelist =
     (case polyfacelist of
        [] \<Rightarrow> Inl IndexError
      | nFaces # rest \<Rightarrow>
          (let fis = polyhedron_loop rest True 0 [] []
           in if nFaces \<noteq> int (length fis) then Inl (BrokenPolyhedron polyfacelist) else Inr fis))"

text \<open>\<^verbatim>\<open>vtu_add_cell\<close>: the cell is created first, then its faces by the cell type.\<close>

definition vtu_add_cell ::
  "int \<Rightarrow> int list \<Rightarrow> facemap \<Rightarrow> int list \<Rightarrow> ug \<Rightarrow> (py_error \<times> ug) + (facemap \<times> ug)" where
  "vtu_add_cell vtk_cell_type vilist facemap polyfacelist st0 =
     (let c = length (ugcells st0);
          st = UGCell st0
      in if vtk_cell_type = 10 then
           add_cell_faces c [[0,2,1], [0,1,3], [1,2,3], [0,3,2]] vilist facemap False st
         else if vtk_cell_type = 12 then
           add_cell_faces c [[0,3,2,1], [0,1,5,4], [1,2,6,5], [2,3,7,6], [3,0,4,7], [7,4,5,6]]
             vilist facemap False st
         else if vtk_cell_type = 13 then
           add_cell_faces c [[0,1,2], [0,3,4,1], [1,4,5,2], [2,5,3,0], [3,5,4]] vilist facemap False st
         else if vtk_cell_type = 14 then
           add_cell_faces c [[0,3,2,1], [0,4,3], [3,4,2], [2,4,1], [1,4,0]] vilist facemap False st
         else if vtk_cell_type = 15 then
           add_cell_faces c [[0,1,2,3,4], [0,5,6,1], [1,6,7,2], [2,7,8,3], [3,8,9,4], [4,9,5,0],
                             [9,8,7,6,5]] vilist facemap False st
         else if vtk_cell_type = 16 then
           add_cell_faces c [[0,1,2,3,4,5], [0,6,7,1], [1,7,8,2], [2,8,9,3], [3,9,10,4],
                             [4,10,11,5], [5,11,6,0], [11,10,9,8,7,6]] vilist facemap False st
         else if vtk_cell_type = 42 then
           (case get_polyhedron_fis polyfacelist of
              Inl e \<Rightarrow> Inl (e, st)
            | Inr fis \<Rightarrow> add_cell_faces c fis vilist facemap True st)
         else Inl (UnsupportedCellType vtk_cell_type, st))"

text \<open>
  For the statements about two hexahedra: the face templates of the hexahedron (the ones
  of \<^verbatim>\<open>vtu_add_cell\<close> for the cell type 12), the vertex lists they give on a cell's
  vertex list, and the face record that \<^verbatim>\<open>add_cell_faces\<close> creates for a key it has not
  seen (the owner set, no neighbour).
\<close>

definition hexahedron_fis :: "int list list" where
  "hexahedron_fis = [[0,3,2,1], [0,1,5,4], [1,2,6,5], [2,3,7,6], [3,0,4,7], [7,4,5,6]]"

definition cell_face_verts :: "int list \<Rightarrow> int list list \<Rightarrow> int list list" where
  "cell_face_verts vilist fis = map (map (\<lambda>v. vilist ! nat v)) fis"

definition new_face :: "nat \<Rightarrow> int list \<Rightarrow> ugface" where
  "new_face c rv = \<lparr>face_ugverts = rv, owner = Some c, neighbour = None\<rparr>"

section \<open>VTU import: the loop over the cells\<close>

text \<open>
  The variables of the loop of \<^verbatim>\<open>vtu_datalists_to_ugdata\<close>, with the topology the
  loop works on.
\<close>

record loop_state =
  conn_index :: int
  offset_index :: int
  facemap_of :: facemap
  topo :: ug

text \<open>
  The slice of the \<^verbatim>\<open>faces\<close> block handed to \<^verbatim>\<open>vtu_add_cell\<close> for a polyhedron:
  \<^verbatim>\<open>cellfaces[offset_index:faceoffset]\<close> with \<^verbatim>\<open>faceoffset = cellfaceoffsets[ci] + 1\<close>.
\<close>

definition polyfacelist_slice :: "int list \<Rightarrow> int \<Rightarrow> int \<Rightarrow> int list" where
  "polyfacelist_slice cellfaces start cfo = py_slice cellfaces start (cfo + 1)"

text \<open>One pass of the loop body, for the cell index \<open>ci\<close>.\<close>

definition cell_step ::
  "int list \<Rightarrow> int list \<Rightarrow> int list \<Rightarrow> int list \<Rightarrow> int list \<Rightarrow> nat \<Rightarrow> loop_state
     \<Rightarrow> (py_error \<times> ug) + loop_state" where
  "cell_step connectivities offsets celltypes cellfaces cellfaceoffsets ci ls =
     (let vtk_cell_type = celltypes ! ci
      in case py_get offsets (int ci) of
           Inl e \<Rightarrow> Inl (e, topo ls)
         | Inr conn_end \<Rightarrow>
             (let vilist = py_slice connectivities (conn_index ls) conn_end
              in case (if vtk_cell_type = 42
                       then (case py_get cellfaceoffsets (int ci) of
                               Inl e \<Rightarrow> Inl e
                             | Inr cfo \<Rightarrow>
                                 Inr (polyfacelist_slice cellfaces (offset_index ls) cfo, cfo))
                       else Inr ([], offset_index ls)) of
                   Inl e \<Rightarrow> Inl (e, topo ls)
                 | Inr (polyfacelist, offset_index1) \<Rightarrow>
                     (case vtu_add_cell vtk_cell_type vilist (facemap_of ls) polyfacelist (topo ls) of
                        Inl e \<Rightarrow> Inl e
                      | Inr (facemap1, st1) \<Rightarrow>
                          Inr \<lparr>conn_index = conn_index ls + (conn_end - conn_index ls),
                               offset_index = offset_index1,
                               facemap_of = facemap1,
                               topo = st1\<rparr>)))"

text \<open>The loop \<^verbatim>\<open>for ci in range(len(celltypes))\<close>, over the list of its indices.\<close>

fun cells_loop ::
  "int list \<Rightarrow> int list \<Rightarrow> int list \<Rightarrow> int list \<Rightarrow> int list \<Rightarrow> nat list \<Rightarrow> loop_state
     \<Rightarrow> (py_error \<times> ug) + loop_state" where
  "cells_loop connectivities offsets celltypes cellfaces cellfaceoffsets [] ls = Inr ls"
| "cells_loop connectivities offsets celltypes cellfaces cellfaceoffsets (ci # cis) ls =
     (case cell_step connectivities offsets celltypes cellfaces cellfaceoffsets ci ls of
        Inl e \<Rightarrow> Inl e
      | Inr ls1 \<Rightarrow> cells_loop connectivities offsets celltypes cellfaces cellfaceoffsets cis ls1)"

text \<open>
  \<^verbatim>\<open>vtu_datalists_to_ugdata\<close>: the loop starts with both indices at 0 and an empty face
  map; its effect is the topology it leaves in the store.
\<close>

definition loop_init :: "ug \<Rightarrow> loop_state" where
  "loop_init st = \<lparr>conn_index = 0, offset_index = 0, facemap_of = Map.empty, topo = st\<rparr>"

definition vtu_datalists_to_ugdata ::
  "int list \<Rightarrow> int list \<Rightarrow> int list \<Rightarrow> int list \<Rightarrow> int list \<Rightarrow> ug \<Rightarrow> (py_error \<times> ug) + ug" where
  "vtu_datalists_to_ugdata connectivities offsets celltypes cellfaces cellfaceoffsets st =
     (case cells_loop connectivities offsets celltypes cellfaces cellfaceoffsets
             [0..<length celltypes] (loop_init st) of
        Inl e \<Rightarrow> Inl e
      | Inr ls \<Rightarrow> Inr (topo ls))"

text \<open>
  For the statement of where a polyhedron's slice starts: the entry of
  \<^verbatim>\<open>cellfaceoffsets\<close> of the last polyhedron cell before the cell \<open>ci\<close>, and 0 when no
  polyhedron cell comes before it.
\<close>

definition prev_polyhedron_offset :: "int list \<Rightarrow> int list \<Rightarrow> nat \<Rightarrow> int" where
  "prev_polyhedron_offset celltypes cellfaceoffsets ci =
     (let js = filter (\<lambda>j. celltypes ! j = 42) [0..<ci]
      in if js = [] then 0 else cellfaceoffsets ! last js)"

section \<open>VTU export: cell types and offsets\<close>

text \<open>
  The loop of \<^verbatim>\<open>generate_types_offsets_text\<close> over \<^verbatim>\<open>ug.ugcells\<close>, with its variables
  \<open>typeslist\<close>, \<open>offsetlist\<close>, \<open>nVert\<close> and \<open>nCells\<close>.
\<close>

fun types_offsets_loop ::
  "ugcell list \<Rightarrow> int list \<Rightarrow> int list \<Rightarrow> int \<Rightarrow> int \<Rightarrow> int list \<times> int list \<times> int \<times> int" where
  "types_offsets_loop [] typeslist offsetlist nVert nCells = (typeslist, offsetlist, nVert, nCells)"
| "types_offsets_loop (c # cs) typeslist offsetlist nVert nCells =
     (if cell_deleted c then types_offsets_loop cs typeslist offsetlist nVert nCells
      else (let nVert1 = nVert + int (length (cell_ugverts c))
            in types_offsets_loop cs (typeslist @ [42]) (offsetlist @ [nVert1]) nVert1 (nCells + 1)))"

definition generate_types_offsets_text :: "ug \<Rightarrow> py_error + (string \<times> string \<times> int \<times> int)" where
  "generate_types_offsets_text st =
     (case types_offsets_loop (ugcells st) [] [] 0 0 of
        (typeslist, offsetlist, nVert, nCells) \<Rightarrow>
          (let celltypes = join '' '' (map str typeslist) @ [CHR 0x0A];
               offsets = join '' '' (map str offsetlist) @ [CHR 0x0A]
           in case py_get offsetlist (- 1) of
                Inl e \<Rightarrow> Inl e
              | Inr offsets_max \<Rightarrow> Inr (celltypes, offsets, offsets_max, nCells)))"

section \<open>PolyMesh codec: the topology store\<close>

text \<open>
  \<^verbatim>\<open>io_polymesh.py\<close> works on the collections \<^verbatim>\<open>ugcells\<close>, \<^verbatim>\<open>ugfaces\<close> and
  \<^verbatim>\<open>ugboundaries\<close> that it imports from the module \<^verbatim>\<open>ug\<close>, with faces and cells that
  refer to each other by index. The fields are the ones the codec reads and writes.
\<close>

record pm_face =
  facei :: int
  verts :: "nat list"
  owneri :: int
  neighbouri :: int
  mati :: int
  deleted :: bool

record pm_cell =
  celli :: int
  faces :: "nat list"

record ugboundary =
  patchname :: string
  typename :: string
  inGroups :: string
  patch_deleted :: bool

record pm =
  pm_ugcells :: "pm_cell list"
  pm_ugfaces :: "pm_face list"
  ugboundaries :: "ugboundary list"

text \<open>
  Modelled from the spec: the constructors \<^verbatim>\<open>UGCell(i)\<close> and \<^verbatim>\<open>UGFace(i, verts)\<close> of the
  module \<^verbatim>\<open>ug\<close> as \<^verbatim>\<open>io_polymesh.py\<close> calls them. A cell starts with its index and an
  empty face collection; a face starts with its index and its ordered vertices, with no
  owner, no neighbour (the codec tests \<^verbatim>\<open>neighbouri == -1\<close> for that), no patch index and
  the deleted flag unset.
\<close>

definition UGCell_pm :: "int \<Rightarrow> pm_cell" where
  "UGCell_pm i = \<lparr>celli = i, faces = []\<rparr>"

definition UGFace_pm :: "int \<Rightarrow> nat list \<Rightarrow> pm_face" where
  "UGFace_pm i vs = \<lparr>facei = i, verts = vs, owneri = - 1, neighbouri = - 1, mati = - 1, deleted = False\<rparr>"

section \<open>PolyMesh import: cells and faces from the owner and neighbour lists\<close>

text \<open>\<^verbatim>\<open>ugcells[c].faces.append(i)\<close>, for a cell index that is in range.\<close>

definition append_cell_face :: "nat \<Rightarrow> nat \<Rightarrow> pm \<Rightarrow> pm" where
  "append_cell_face c i st =
     st\<lparr>pm_ugcells := (pm_ugcells st)[c := (pm_ugcells st ! c)\<lparr>faces := faces (pm_ugcells st ! c) @ [i]\<rparr>]\<rparr>"

text \<open>
  The edges of an internal face: \<^verbatim>\<open>(face_verts[i][j-1], face_verts[i][j])\<close> for every
  \<open>j\<close>, where the index \<open>-1\<close> of the first pass is the last vertex.
\<close>

definition face_edges :: "nat list \<Rightarrow> (nat \<times> nat) list" where
  "face_edges vs = map (\<lambda>j. (vs ! (if j = 0 then length vs - 1 else j - 1), vs ! j)) [0..<length vs]"

text \<open>
  One pass of the second loop of \<^verbatim>\<open>polymesh_get_faces\<close>, for the face index \<open>i\<close>. The
  lists \<open>owner\<close>, \<open>neighbour\<close> and \<open>face_verts\<close> are what the parsers
  \<^verbatim>\<open>polymesh_get_intlist\<close> and \<^verbatim>\<open>polymesh_get_list_intlist\<close> return; their entries match
  \<^verbatim>\<open>\d+\<close>, so they are natural numbers. The new face is appended to \<^verbatim>\<open>ugfaces\<close> first
  and then updated in place; an index out of range raises and leaves the store as it is.
\<close>

definition face_step ::
  "bool \<Rightarrow> nat list \<Rightarrow> nat list \<Rightarrow> nat list list \<Rightarrow> nat
     \<Rightarrow> pm \<times> (nat \<times> nat) list \<times> nat list list
     \<Rightarrow> (py_error \<times> pm) + (pm \<times> (nat \<times> nat) list \<times> nat list list)" where
  "face_step gen_edges owner_list neighbour_list face_verts i acc =
     (case acc of (st, edges, polygons) \<Rightarrow>
        (let p = length (pm_ugfaces st);
             st1 = st\<lparr>pm_ugfaces := pm_ugfaces st @ [UGFace_pm (int i) (face_verts ! i)]\<rparr>
         in if \<not> i < length owner_list then Inl (IndexError, st1)
            else
              (let oc = owner_list ! i;
                   st2 = st1\<lparr>pm_ugfaces := (pm_ugfaces st1)[p := (pm_ugfaces st1 ! p)\<lparr>owneri := int oc\<rparr>]\<rparr>
               in if \<not> oc < length (pm_ugcells st2) then Inl (IndexError, st2)
                  else
                    (let st3 = append_cell_face oc i st2
                     in if i < length neighbour_list
                        then
                          (let nc = neighbour_list ! i;
                               st4 = st3\<lparr>pm_ugfaces :=
                                       (pm_ugfaces st3)[p := (pm_ugfaces st3 ! p)\<lparr>neighbouri := int nc\<rparr>]\<rparr>
                           in if \<not> nc < length (pm_ugcells st4) then Inl (IndexError, st4)
                              else Inr (append_cell_face nc i st4,
                                        (if gen_edges then edges @ face_edges (face_verts ! i) else edges),
                                        polygons))
                        else Inr (st3, edges, polygons @ [face_verts ! i])))))"

fun faces_loop ::
  "bool \<Rightarrow> nat list \<Rightarrow> nat list \<Rightarrow> nat list list \<Rightarrow> nat list
     \<Rightarrow> pm \<times> (nat \<times> nat) list \<times> nat list list
     \<Rightarrow> (py_error \<times> pm) + (pm \<times> (nat \<times> nat) list \<times> nat list list)" where
  "faces_loop gen_edges owner_list neighbour_list face_verts [] acc = Inr acc"
| "faces_loop gen_edges owner_list neighbour_list face_verts (i # ks) acc =
     (case face_step gen_edges owner_list neighbour_list face_verts i acc of
        Inl e \<Rightarrow> Inl e
      | Inr acc1 \<Rightarrow> faces_loop gen_edges owner_list neighbour_list face_verts ks acc1)"

text \<open>
  \<^verbatim>\<open>polymesh_get_faces\<close> after its three parser calls: \<^verbatim>\<open>max(owner) + 1\<close> cells are
  appended (\<^verbatim>\<open>max\<close> of an empty list raises), then the faces are created. It returns
  the edges and the boundary polygons; its effect on the store is returned with them.
\<close>

definition polymesh_get_faces ::
  "bool \<Rightarrow> nat list \<Rightarrow> nat list \<Rightarrow> nat list list \<Rightarrow> pm
     \<Rightarrow> (py_error \<times> pm) + (pm \<times> (nat \<times> nat) list \<times> nat list list)" where
  "polymesh_get_faces gen_edges owner_list neighbour_list face_verts st =
     (if owner_list = [] then Inl (MaxOfEmpty, st)
      else
        (let st1 = st\<lparr>pm_ugcells := pm_ugcells st @
                      map (\<lambda>i. UGCell_pm (int i)) [0..<Max (set owner_list) + 1]\<rparr>
         in faces_loop gen_edges owner_list neighbour_list face_verts [0..<length face_verts]
              (st1, [], [])))"

text \<open>
  For the statements about the import: the face record that the loop leaves for the face
  index \<open>i\<close>, and the condition under which no index of the loop is out of range (every
  face has an owner entry, and every neighbour entry used is the index of a cell).
\<close>

definition imported_face :: "nat list \<Rightarrow> nat list \<Rightarrow> nat list list \<Rightarrow> nat \<Rightarrow> pm_face" where
  "imported_face owner_list neighbour_list face_verts i =
     \<lparr>facei = int i, verts = face_verts ! i, owneri = int (owner_list ! i),
      neighbouri = (if i < length neighbour_list then int (neighbour_list ! i) else - 1),
      mati = - 1, deleted = False\<rparr>"

definition faces_in_range :: "nat list \<Rightarrow> nat list \<Rightarrow> nat \<Rightarrow> nat \<Rightarrow> bool" where
  "faces_in_range owner_list neighbour_list ncells k \<longleftrightarrow>
     list_all (\<lambda>i. i < length owner_list \<and> owner_list ! i < ncells \<and>
                  (if i < length neighbour_list then neighbour_list ! i < ncells else True)) [0..<k]"

section \<open>PolyMesh export\<close>

definition newline :: string where
  "newline = [CHR 0x0A]"

text \<open>\<^verbatim>\<open>of_file_header\<close>.\<close>

definition of_file_header :: "string \<Rightarrow> string \<Rightarrow> string" where
  "of_file_header class_name object_name =
     ''FoamFile'' @ newline @ ''{'' @ newline @
     ''    version     2.0;'' @ newline @
     ''    format      ascii;'' @ newline @
     ''    class       '' @ class_name @ '';'' @ newline @
     ''    object      '' @ object_name @ '';'' @ newline @ ''}'' @ newline"

text \<open>\<^verbatim>\<open>gen_line\<close> of \<^verbatim>\<open>update_text_faces\<close>; \<^verbatim>\<open>verts[-1]\<close> raises on an empty list.\<close>

definition gen_line :: "nat list \<Rightarrow> py_error + string" where
  "gen_line vs =
     (if vs = [] then Inl IndexError
      else Inr (str (int (length vs)) @ ''('' @
                concat (map (\<lambda>v. str (int v) @ '' '') (butlast vs)) @
                str (int (last vs)) @ '')'' @ newline))"

text \<open>The position that Python's \<^verbatim>\<open>xs[i]\<close> refers to in a list of length \<open>n\<close>.\<close>

definition py_position :: "nat \<Rightarrow> int \<Rightarrow> nat option" where
  "py_position n i =
     (if 0 \<le> i \<and> i < int n then Some (nat i)
      else if i < 0 \<and> - int n \<le> i then Some (nat (int n + i))
      else None)"

text \<open>
  In the internal pass of \<^verbatim>\<open>face_pass\<close>: a cell that has no export index yet gets the
  next one.
\<close>

definition number_cell :: "int \<Rightarrow> int \<times> pm \<Rightarrow> py_error + (int \<times> pm)" where
  "number_cell ci acc =
     (case acc of (next_celli, st) \<Rightarrow>
        (case py_position (length (pm_ugcells st)) ci of
           None \<Rightarrow> Inl IndexError
         | Some p \<Rightarrow>
             if celli (pm_ugcells st ! p) = - 1
             then Inr (next_celli + 1,
                       st\<lparr>pm_ugcells := (pm_ugcells st)[p := (pm_ugcells st ! p)\<lparr>celli := next_celli\<rparr>]\<rparr>)
             else Inr (next_celli, st)))"

text \<open>
  The loop of \<^verbatim>\<open>face_pass\<close> over \<^verbatim>\<open>ugfaces\<close>, by position, with its variables \<open>text\<close>,
  \<open>i\<close> (the next face index) and \<open>celli\<close> (the next cell index).
\<close>

fun face_pass_loop ::
  "bool \<Rightarrow> nat list \<Rightarrow> string \<times> int \<times> int \<times> pm \<Rightarrow> (py_error \<times> pm) + (string \<times> int \<times> int \<times> pm)" where
  "face_pass_loop internal [] acc = Inr acc"
| "face_pass_loop internal (k # ks) (text, i, next_celli, st) =
     (let f = pm_ugfaces st ! k
      in if deleted f then face_pass_loop internal ks (text, i, next_celli, st)
         else if internal \<and> neighbouri f = - 1 then face_pass_loop internal ks (text, i, next_celli, st)
         else if (\<not> internal) \<and> neighbouri f \<noteq> - 1 then face_pass_loop internal ks (text, i, next_celli, st)
         else
           (let st1 = st\<lparr>pm_ugfaces := (pm_ugfaces st)[k := f\<lparr>facei := i\<rparr>]\<rparr>
            in case gen_line (verts f) of
                 Inl e \<Rightarrow> Inl (e, st1)
               | Inr line \<Rightarrow>
                   if internal
                   then (case number_cell (owneri f) (next_celli, st1) of
                           Inl e \<Rightarrow> Inl (e, st1)
                         | Inr (c1, st2) \<Rightarrow>
                             (case number_cell (neighbouri f) (c1, st2) of
                                Inl e \<Rightarrow> Inl (e, st2)
                              | Inr (c2, st3) \<Rightarrow> face_pass_loop internal ks (text @ line, i + 1, c2, st3)))
                   else face_pass_loop internal ks (text @ line, i + 1, next_celli, st1)))"

definition face_pass :: "bool \<Rightarrow> int \<Rightarrow> pm \<Rightarrow> (py_error \<times> pm) + (string \<times> int \<times> pm)" where
  "face_pass internal i st =
     (let st0 = (if internal then st\<lparr>pm_ugcells := map (\<lambda>c. c\<lparr>celli := - 1\<rparr>) (pm_ugcells st)\<rparr> else st)
      in case face_pass_loop internal [0..<length (pm_ugfaces st0)] ([], i, 0, st0) of
           Inl e \<Rightarrow> Inl e
         | Inr (text, i1, next_celli, st1) \<Rightarrow> Inr (text, i1, st1))"

text \<open>
  \<^verbatim>\<open>update_text_faces\<close>: the internal pass from the face index 0, then the boundary pass;
  the text of the \<^verbatim>\<open>faces\<close> file is returned with the store, whose faces now hold their
  export indices.
\<close>

definition update_text_faces :: "pm \<Rightarrow> (py_error \<times> pm) + (string \<times> pm)" where
  "update_text_faces st =
     (case face_pass True 0 st of
        Inl e \<Rightarrow> Inl e
      | Inr (text_internal, i, st1) \<Rightarrow>
          (case face_pass False i st1 of
             Inl e \<Rightarrow> Inl e
           | Inr (text_boundary, i1, st2) \<Rightarrow>
               Inr (of_file_header ''faceList'' ''faces'' @ newline @
                    str i1 @ newline @ ''('' @ newline @
                    text_internal @ text_boundary @ '')'' @ newline, st2)))"

text \<open>
  \<^verbatim>\<open>update_text_owner_neighbour\<close>, with its local lists \<^verbatim>\<open>internal_faces\<close> and
  \<^verbatim>\<open>neighbour_faces\<close>; the count line of the owner text is \<^verbatim>\<open>ninternal + nneighbour\<close>.
\<close>

definition internal_faces :: "pm \<Rightarrow> pm_face list" where
  "internal_faces st = filter (\<lambda>f. \<not> deleted f) (pm_ugfaces st)"

definition neighbour_faces :: "pm \<Rightarrow> pm_face list" where
  "neighbour_faces st = filter (\<lambda>f. neighbouri f \<noteq> - 1 \<and> \<not> deleted f) (pm_ugfaces st)"

definition owner_count_line :: "pm \<Rightarrow> int" where
  "owner_count_line st = int (length (internal_faces st)) + int (length (neighbour_faces st))"

definition neighbour_count_line :: "pm \<Rightarrow> int" where
  "neighbour_count_line st = int (length (neighbour_faces st))"

definition update_text_owner_neighbour :: "pm \<Rightarrow> string \<times> string" where
  "update_text_owner_neighbour st =
     (of_file_header ''labelList'' ''owner'' @ newline @
      str (owner_count_line st) @ newline @ ''('' @ newline @
      concat (map (\<lambda>f. str (owneri f) @ newline) (internal_faces st)) @ '')'' @ newline,
      of_file_header ''labelList'' ''neighbour'' @ newline @
      str (neighbour_count_line st) @ newline @ ''('' @ newline @
      concat (map (\<lambda>f. str (neighbouri f) @ newline) (neighbour_faces st)) @ '')'' @ newline)"

text \<open>
  \<^verbatim>\<open>update_text_boundary\<close>. For the patch number \<open>i\<close>, \<^verbatim>\<open>bfaces\<close> are the faces whose
  patch index is \<open>i\<close>; the entry holds \<^verbatim>\<open>len(bfaces)\<close> and \<^verbatim>\<open>bfaces[0].facei\<close>, which
  raises when the patch has no face.
\<close>

definition bfaces :: "pm \<Rightarrow> int \<Rightarrow> pm_face list" where
  "bfaces st i = filter (\<lambda>x. mati x = i) (pm_ugfaces st)"

definition patch_range :: "pm \<Rightarrow> int \<Rightarrow> py_error + (int \<times> int)" where
  "patch_range st i =
     (case bfaces st i of
        [] \<Rightarrow> Inl IndexError
      | x # xs \<Rightarrow> Inr (int (length (x # xs)), facei x))"

definition patch_text :: "ugboundary \<Rightarrow> int \<Rightarrow> int \<Rightarrow> string" where
  "patch_text b n_faces start_face =
     ''    '' @ patchname b @ newline @ ''    {'' @ newline @
     ''        type            '' @ typename b @ '';'' @ newline @
     (if inGroups b \<noteq> [] then ''        inGroups        '' @ inGroups b @ '';'' @ newline else []) @
     ''        nFaces          '' @ str n_faces @ '';'' @ newline @
     ''        startFace       '' @ str start_face @ '';'' @ newline @
     ''    }'' @ newline"

fun boundary_loop :: "pm \<Rightarrow> ugboundary list \<Rightarrow> int \<times> string \<times> int \<Rightarrow> py_error + (int \<times> string \<times> int)" where
  "boundary_loop st [] acc = Inr acc"
| "boundary_loop st (b # bs) (i, btext, nboundaries) =
     (if patch_deleted b then boundary_loop st bs (i + 1, btext, nboundaries)
      else
        (case patch_range st i of
           Inl e \<Rightarrow> Inl e
         | Inr (n_faces, start_face) \<Rightarrow>
             boundary_loop st bs (i + 1, btext @ patch_text b n_faces start_face, nboundaries + 1)))"

definition update_text_boundary :: "pm \<Rightarrow> py_error + string" where
  "update_text_boundary st =
     (case boundary_loop st (ugboundaries st) (0, [], 0) of
        Inl e \<Rightarrow> Inl e
      | Inr (i, btext, nboundaries) \<Rightarrow>
          Inr (of_file_header ''polyBoundaryMesh'' ''boundary'' @ newline @
               str nboundaries @ newline @ ''('' @ newline @ btext @ '')'' @ newline))"

section \<open>Properties of the canonical face key\<close>

lemma digit_char_in: "d < 10 \<Longrightarrow> digit_char d \<in> set ''0123456789''"
  unfolding digit_char_def by (rule nth_mem) simp

lemma digit_char_inj: "a < 10 \<Longrightarrow> b < 10 \<Longrightarrow> digit_char a = digit_char b \<Longrightarrow> a = b"
  unfolding digit_char_def
  by (subst (asm) nth_eq_iff_index_eq) simp_all

lemma str_nat_not_Nil: "str_nat n \<noteq> []"
  by (subst str_nat.simps) simp

lemma str_nat_digits: "set (str_nat n) \<subseteq> set ''0123456789''"
proof (induction n rule: str_nat.induct)
  case (1 n)
  show ?case
  proof (cases "n < 10")
    case True
    then show ?thesis
      using digit_char_in [of n] by (subst str_nat.simps) simp
  next
    case False
    have "n mod 10 < 10" by simp
    then have "digit_char (n mod 10) \<in> set ''0123456789''" by (rule digit_char_in)
    with False 1 show ?thesis
      by (subst str_nat.simps) simp
  qed
qed

lemma str_nat_inj: "str_nat n = str_nat m \<Longrightarrow> n = m"
proof (induction n arbitrary: m rule: str_nat.induct)
  case (1 n)
  show ?case
  proof (cases "n < 10")
    case n: True
    show ?thesis
    proof (cases "m < 10")
      case True
      with n 1(2) show ?thesis
        by (simp add: str_nat.simps [of n] str_nat.simps [of m] digit_char_inj)
    next
      case False
      with n 1(2) show ?thesis
        using str_nat_not_Nil [of "m div 10"]
        by (simp add: str_nat.simps [of n] str_nat.simps [of m])
    qed
  next
    case n: False
    show ?thesis
    proof (cases "m < 10")
      case True
      with n 1(2) show ?thesis
        using str_nat_not_Nil [of "n div 10"]
        by (simp add: str_nat.simps [of n] str_nat.simps [of m])
    next
      case False
      with n 1(2) have eq: "str_nat (n div 10) = str_nat (m div 10)"
        and d: "digit_char (n mod 10) = digit_char (m mod 10)"
        by (simp_all add: str_nat.simps [of n] str_nat.simps [of m])
      from 1(1) [OF n eq] have "n div 10 = m div 10" .
      moreover from d have "n mod 10 = m mod 10"
        by (rule digit_char_inj [rotated 2]) simp_all
      ultimately show ?thesis
        by (metis div_mult_mod_eq)
    qed
  qed
qed

lemma str_no_comma: "CHR '','' \<notin> set (str i)"
  using str_nat_digits [of "nat i"] str_nat_digits [of "nat (- i)"]
  by (auto simp: str_def)

lemma str_nat_no_minus: "CHR ''-'' \<notin> set (str_nat n)"
  using str_nat_digits [of n] by auto

lemma str_inj: "str i = str j \<Longrightarrow> i = j"
proof -
  assume eq: "str i = str j"
  have hd_nat: "hd (str_nat n) \<noteq> CHR ''-''" for n
    using str_nat_no_minus [of n] str_nat_not_Nil [of n]
    by (cases "str_nat n") auto
  show "i = j"
  proof (cases "i < 0")
    case i: True
    show ?thesis
    proof (cases "j < 0")
      case True
      with i eq have "nat (- i) = nat (- j)"
        by (simp add: str_def str_nat_inj)
      with i True show ?thesis by simp
    next
      case False
      with i eq have "hd (str_nat (nat j)) = CHR ''-''"
        by (simp add: str_def) (metis list.sel(1))
      with hd_nat show ?thesis by blast
    qed
  next
    case i: False
    show ?thesis
    proof (cases "j < 0")
      case True
      with i eq have "hd (str_nat (nat i)) = CHR ''-''"
        by (simp add: str_def)
      with hd_nat show ?thesis by blast
    next
      case False
      with i eq have "nat i = nat j"
        by (simp add: str_def str_nat_inj)
      with i False show ?thesis by simp
    qed
  qed
qed

lemma foldl_key_concat:
  "foldl (\<lambda>string i. string @ str i @ '','') acc xs = acc @ concat (map (\<lambda>i. str i @ '','') xs)"
  by (induction xs arbitrary: acc) simp_all

lemma split_at_separator:
  assumes "a @ c # r = b @ c # r'" and "c \<notin> set a" and "c \<notin> set b"
  shows "a = b \<and> r = r'"
proof -
  have tw: "c \<notin> set u \<Longrightarrow> takeWhile (\<lambda>x. x \<noteq> c) (u @ c # v) = u" for u v
    by (induction u) auto
  have "takeWhile (\<lambda>x. x \<noteq> c) (a @ c # r) = a"
    using assms(2) by (rule tw)
  moreover have "takeWhile (\<lambda>x. x \<noteq> c) (b @ c # r') = b"
    using assms(3) by (rule tw)
  ultimately have "a = b" using assms(1) by simp
  with assms(1) show ?thesis by simp
qed

lemma key_concat_inj:
  "concat (map (\<lambda>i. str i @ '','') xs) = concat (map (\<lambda>i. str i @ '','') ys) \<Longrightarrow> xs = ys"
proof (induction xs arbitrary: ys)
  case Nil
  then show ?case by (cases ys) simp_all
next
  case (Cons x xs)
  show ?case
  proof (cases ys)
    case Nil
    with Cons.prems show ?thesis by simp
  next
    case (Cons y ys')
    with Cons.prems have
      "str x @ CHR '','' # concat (map (\<lambda>i. str i @ '','') xs) =
       str y @ CHR '','' # concat (map (\<lambda>i. str i @ '','') ys')"
      by simp
    then have "str x = str y \<and>
      concat (map (\<lambda>i. str i @ '','') xs) = concat (map (\<lambda>i. str i @ '','') ys')"
      by (rule split_at_separator) (rule str_no_comma)+
    with Cons.IH [of ys'] Cons show ?thesis
      by (simp add: str_inj)
  qed
qed

lemma get_vert_string_eq_iff: "get_vert_string xs = get_vert_string ys \<longleftrightarrow> sort xs = sort ys"
  unfolding get_vert_string_def Let_def foldl_key_concat
  using key_concat_inj by auto

lemma get_vert_string_mset: "get_vert_string xs = get_vert_string ys \<longleftrightarrow> mset xs = mset ys"
  unfolding get_vert_string_eq_iff
  by (metis mset_sort properties_for_sort sorted_sort)

text \<open>
  C9. Two vertex-index lists that are permutations of each other get the same key, and two
  lists whose sorted index sequences differ get different keys.
\<close>

theorem C9_canonical_key:
  "(mset xs = mset ys \<longrightarrow> get_vert_string xs = get_vert_string ys) \<and>
   (sort xs \<noteq> sort ys \<longrightarrow> get_vert_string xs \<noteq> get_vert_string ys)"
  using get_vert_string_mset [of xs ys] get_vert_string_eq_iff [of xs ys] by blast

theorem C9_canonical_key_witness:
  "(mset [0, 3, 2, 1 :: int] = mset [1, 2, 3, 0] \<and>
    get_vert_string [0, 3, 2, 1] = get_vert_string [1, 2, 3, 0]) \<and>
   (sort [0, 1, 5, 4 :: int] \<noteq> sort [1, 2, 6, 5] \<and>
    get_vert_string [0, 1, 5, 4] \<noteq> get_vert_string [1, 2, 6, 5])"
proof -
  have p: "mset [0, 3, 2, 1 :: int] = mset [1, 2, 3, 0]" by simp
  have q: "sort [0, 1, 5, 4 :: int] \<noteq> sort [1, 2, 6, 5]" by simp
  from C9_canonical_key [of "[0, 3, 2, 1]" "[1, 2, 3, 0]"] p
  have "get_vert_string [0, 3, 2, 1] = get_vert_string [1, 2, 3, 0]" by blast
  moreover from C9_canonical_key [of "[0, 1, 5, 4]" "[1, 2, 6, 5]"] q
  have "get_vert_string [0, 1, 5, 4] \<noteq> get_vert_string [1, 2, 6, 5]" by blast
  ultimately show ?thesis using p q by blast
qed

section \<open>Properties of the face deduplication engine\<close>

lemma add_face_and_verts_ugfaces [simp]: "ugfaces (add_face_and_verts c ugf st) = ugfaces st"
  by (simp add: add_face_and_verts_def Let_def)

lemma UGCell_ugfaces [simp]: "ugfaces (UGCell st) = ugfaces st"
  by (simp add: UGCell_def)

lemma set_neighbour_ugfaces:
  "ugfaces (set_neighbour ugf c st) = (ugfaces st)[ugf := (ugfaces st ! ugf)\<lparr>neighbour := Some c\<rparr>]"
  by (simp add: set_neighbour_def)

lemma cells_loop_append:
  "cells_loop cn os ct cf cfo (xs @ ys) ls =
     (case cells_loop cn os ct cf cfo xs ls of
        Inl e \<Rightarrow> Inl e
      | Inr ls1 \<Rightarrow> cells_loop cn os ct cf cfo ys ls1)"
  by (induction xs arbitrary: ls) (simp_all split: sum.splits)

lemma upt_split_at: "ci < n \<Longrightarrow> [0..<n] = [0..<ci] @ ci # [Suc ci..<n]"
  by (metis upt_conv_Cons upt_add_eq_append le0 less_imp_le_nat add_0 le_add_diff_inverse)

lemma py_get_nat: "i < length xs \<Longrightarrow> py_get xs (int i) = Inr (xs ! i)"
  by (simp add: py_get_def)

text \<open>
  C1, as the code has it. \<^verbatim>\<open>add_cell_faces\<close> has no check of the neighbour: when the key
  of a face is in the face map and the mapped face already has a neighbour, a further cell
  with the same key raises nothing. The neighbour of the existing face is overwritten with
  the new cell; its owner and vertices, the face map and the number of faces stay as they
  are.
\<close>

theorem C1_third_cell_relinks:
  assumes "real_vilist is_polyhedron vilist fisverts = Inr rv"
    and "facemap (get_vert_string rv) = Some ugf"
    and "ugf < length (ugfaces st)"
    and "neighbour (ugfaces st ! ugf) = Some c2"
  shows "\<exists>st'. add_cell_faces c3 [fisverts] vilist facemap is_polyhedron st = Inr (facemap, st') \<and>
               length (ugfaces st') = length (ugfaces st) \<and>
               neighbour (ugfaces st' ! ugf) = Some c3 \<and>
               owner (ugfaces st' ! ugf) = owner (ugfaces st ! ugf) \<and>
               face_ugverts (ugfaces st' ! ugf) = face_ugverts (ugfaces st ! ugf)"
  using assms by (simp add: set_neighbour_ugfaces)

theorem C1_third_cell_relinks_witness:
  "\<exists>st'. add_cell_faces 2 [[2, 1, 0]] [] [''0,1,2,'' \<mapsto> 0] True
           \<lparr>ugfaces = [\<lparr>face_ugverts = [0, 1, 2], owner = Some 0, neighbour = Some 1\<rparr>],
            ugcells = []\<rparr> = Inr ([''0,1,2,'' \<mapsto> 0], st') \<and>
         length (ugfaces st') = length [\<lparr>face_ugverts = [0, 1, 2], owner = Some 0, neighbour = Some (1::nat)\<rparr>] \<and>
         neighbour (ugfaces st' ! 0) = Some 2 \<and>
         owner (ugfaces st' ! 0) = Some 0 \<and>
         face_ugverts (ugfaces st' ! 0) = [0, 1, 2]"
proof -
  have k: "get_vert_string [2, 1, 0] = ''0,1,2,''" by code_simp
  show ?thesis
    using C1_third_cell_relinks [of True "[]" "[2, 1, 0]" "[2, 1, 0]" "[''0,1,2,'' \<mapsto> 0]" 0
        "\<lparr>ugfaces = [\<lparr>face_ugverts = [0, 1, 2], owner = Some 0, neighbour = Some 1\<rparr>], ugcells = []\<rparr>" 1 2]
    by (simp add: real_vilist_def k)
qed

text \<open>
  Three tetrahedra with the face \<open>{0, 1, 2}\<close> in common: the import returns without an
  error, and the neighbour of the shared face is the third cell (index 2), not the second.
\<close>

theorem C1_counterexample:
  "vtu_datalists_to_ugdata [0,1,2,3, 0,1,2,4, 0,1,2,5] [4,8,12] [10,10,10] [] []
     \<lparr>ugfaces = [], ugcells = []\<rparr> =
   Inr \<lparr>ugfaces =
        [\<lparr>face_ugverts = [0, 2, 1], owner = Some 0, neighbour = Some 2\<rparr>,
         \<lparr>face_ugverts = [0, 1, 3], owner = Some 0, neighbour = None\<rparr>,
         \<lparr>face_ugverts = [1, 2, 3], owner = Some 0, neighbour = None\<rparr>,
         \<lparr>face_ugverts = [0, 3, 2], owner = Some 0, neighbour = None\<rparr>,
         \<lparr>face_ugverts = [0, 1, 4], owner = Some 1, neighbour = None\<rparr>,
         \<lparr>face_ugverts = [1, 2, 4], owner = Some 1, neighbour = None\<rparr>,
         \<lparr>face_ugverts = [0, 4, 2], owner = Some 1, neighbour = None\<rparr>,
         \<lparr>face_ugverts = [0, 1, 5], owner = Some 2, neighbour = None\<rparr>,
         \<lparr>face_ugverts = [1, 2, 5], owner = Some 2, neighbour = None\<rparr>,
         \<lparr>face_ugverts = [0, 5, 2], owner = Some 2, neighbour = None\<rparr>],
        ugcells =
          [\<lparr>cell_ugfaces = [0, 1, 2, 3], cell_ugverts = [0, 2, 1, 3], cell_deleted = False\<rparr>,
           \<lparr>cell_ugfaces = [0, 4, 5, 6], cell_ugverts = [0, 2, 1, 4], cell_deleted = False\<rparr>,
           \<lparr>cell_ugfaces = [0, 7, 8, 9], cell_ugverts = [0, 2, 1, 5], cell_deleted = False\<rparr>]\<rparr>"
  by code_simp

section \<open>Errors of the VTU import\<close>

text \<open>
  C6, as the code has it. A polyhedron whose declared face count differs from the number
  of faces decoded makes \<^verbatim>\<open>vtu_add_cell\<close> raise the \<open>ValueError\<close> for a broken
  polyhedron. No face is created or changed, but the cell created at the start of
  \<^verbatim>\<open>vtu_add_cell\<close> stays in the collection of cells, with no faces and no vertices.
\<close>

theorem C6_malformed_polyhedron:
  assumes "nFaces \<noteq> int (length (polyhedron_loop rest True 0 [] []))"
  shows "vtu_add_cell 42 vilist facemap (nFaces # rest) st =
         Inl (BrokenPolyhedron (nFaces # rest),
              st\<lparr>ugcells := ugcells st @
                    [\<lparr>cell_ugfaces = [], cell_ugverts = [], cell_deleted = False\<rparr>]\<rparr>)"
  using assms by (simp add: vtu_add_cell_def get_polyhedron_fis_def UGCell_def Let_def)

theorem C6_malformed_polyhedron_witness:
  "vtu_add_cell 42 [0,1,2,3] Map.empty [2, 3,0,1,2] \<lparr>ugfaces = [], ugcells = []\<rparr> =
         Inl (BrokenPolyhedron [2, 3,0,1,2],
              \<lparr>ugfaces = [], ugcells = [\<lparr>cell_ugfaces = [], cell_ugverts = [], cell_deleted = False\<rparr>]\<rparr>)"
  using C6_malformed_polyhedron [of 2 "[3,0,1,2]" "[0,1,2,3]" Map.empty "\<lparr>ugfaces = [], ugcells = []\<rparr>"]
  by simp

text \<open>
  A polyhedron that declares two faces and holds one: the import fails, and the cell
  collection has one (empty) cell where it had none.
\<close>

theorem C6_counterexample:
  "vtu_datalists_to_ugdata [0,1,2,3] [4] [42] [2, 3,0,1,2] [5] \<lparr>ugfaces = [], ugcells = []\<rparr> =
   Inl (BrokenPolyhedron [2, 3,0,1,2],
        \<lparr>ugfaces = [],
         ugcells = [\<lparr>cell_ugfaces = [], cell_ugverts = [], cell_deleted = False\<rparr>]\<rparr>)"
  by code_simp

text \<open>
  C8, as the code has it. A cell whose type code is none of 10, 12, 13, 14, 15, 16, 42
  makes \<^verbatim>\<open>vtu_add_cell\<close> raise the \<open>ValueError\<close> that carries the type tag. The loop
  over the cells does not catch it: when the cells before it were imported, the whole
  import ends with this error at that cell, and the topology holds the cells imported so
  far and the empty record of the offending cell.
\<close>

theorem C8_unsupported_cell_type:
  "t \<notin> {10, 12, 13, 14, 15, 16, 42} \<Longrightarrow>
   vtu_add_cell t vilist facemap polyfacelist st = Inl (UnsupportedCellType t, UGCell st) \<and>
   (ci < length celltypes \<and> ci < length offsets \<and> celltypes ! ci = t \<and>
    cells_loop connectivities offsets celltypes cellfaces cellfaceoffsets [0..<ci] (loop_init st0) = Inr ls \<longrightarrow>
    vtu_datalists_to_ugdata connectivities offsets celltypes cellfaces cellfaceoffsets st0 =
      Inl (UnsupportedCellType t, UGCell (topo ls)))"
proof -
  assume t: "t \<notin> {10, 12, 13, 14, 15, 16, 42}"
  have a: "vtu_add_cell t vilist facemap polyfacelist st = Inl (UnsupportedCellType t, UGCell st)"
    for vilist facemap polyfacelist st
    using t by (simp add: vtu_add_cell_def Let_def)
  have b: "vtu_datalists_to_ugdata connectivities offsets celltypes cellfaces cellfaceoffsets st0 =
      Inl (UnsupportedCellType t, UGCell (topo ls))"
    if ci: "ci < length celltypes" "ci < length offsets" "celltypes ! ci = t"
      and pre: "cells_loop connectivities offsets celltypes cellfaces cellfaceoffsets [0..<ci] (loop_init st0) = Inr ls"
  proof -
    have t42: "t \<noteq> 42" using t by simp
    have step: "cell_step connectivities offsets celltypes cellfaces cellfaceoffsets ci ls =
        Inl (UnsupportedCellType t, UGCell (topo ls))"
      using ci t42 by (simp add: cell_step_def Let_def py_get_nat a)
    show ?thesis
      unfolding vtu_datalists_to_ugdata_def upt_split_at [OF ci(1)] cells_loop_append
      by (simp add: pre step)
  qed
  from a b show ?thesis by blast
qed

theorem C8_unsupported_cell_type_witness:
  "(11::int) \<notin> {10, 12, 13, 14, 15, 16, 42} \<and>
   vtu_add_cell 11 [0,1,2,3] Map.empty [] \<lparr>ugfaces = [], ugcells = []\<rparr> =
     Inl (UnsupportedCellType 11, UGCell \<lparr>ugfaces = [], ugcells = []\<rparr>) \<and>
   vtu_datalists_to_ugdata [0,1,2,3, 0,1,2,4] [4,8] [11,10] [] [] \<lparr>ugfaces = [], ugcells = []\<rparr> =
     Inl (UnsupportedCellType 11, UGCell \<lparr>ugfaces = [], ugcells = []\<rparr>)"
  using C8_unsupported_cell_type [of 11 "[0,1,2,3]" Map.empty "[]" "\<lparr>ugfaces = [], ugcells = []\<rparr>" 0 "[11,10]" "[4,8]"
      "[0,1,2,3, 0,1,2,4]" "[]" "[]" "\<lparr>ugfaces = [], ugcells = []\<rparr>" "loop_init \<lparr>ugfaces = [], ugcells = []\<rparr>"]
  by (simp add: loop_init_def)

text \<open>
  An unsupported cell (type 11) followed by a tetrahedron: the import ends with the error
  of the first cell, and the tetrahedron is never imported.
\<close>

theorem C8_counterexample:
  "vtu_datalists_to_ugdata [0,1,2,3, 0,1,2,4] [4,8] [11,10] [] [] \<lparr>ugfaces = [], ugcells = []\<rparr> =
   Inl (UnsupportedCellType 11,
        \<lparr>ugfaces = [],
         ugcells = [\<lparr>cell_ugfaces = [], cell_ugverts = [], cell_deleted = False\<rparr>]\<rparr>)"
  by code_simp

section \<open>VTU export without cells\<close>

lemma types_offsets_loop_offsetlist:
  "fst (snd (types_offsets_loop cs typeslist offsetlist nVert nCells)) = [] \<longleftrightarrow>
     offsetlist = [] \<and> (\<forall>c \<in> set cs. cell_deleted c)"
  by (induction cs arbitrary: typeslist offsetlist nVert nCells) (auto simp: Let_def)

text \<open>
  C10. When no cell of the topology is non-deleted (there is no cell, or every cell is
  flagged deleted), \<^verbatim>\<open>generate_types_offsets_text\<close> raises \<open>IndexError\<close> at
  \<^verbatim>\<open>offsetlist[-1]\<close>; so it returns only when some cell is non-deleted.
\<close>

theorem C10_export_needs_a_cell:
  "((\<forall>c \<in> set (ugcells st). cell_deleted c) \<longrightarrow> generate_types_offsets_text st = Inl IndexError) \<and>
   ((\<exists>r. generate_types_offsets_text st = Inr r) \<longrightarrow> (\<exists>c \<in> set (ugcells st). \<not> cell_deleted c))"
proof -
  obtain tl ol nv nc where loop: "types_offsets_loop (ugcells st) [] [] 0 0 = (tl, ol, nv, nc)"
    by (metis prod_cases4)
  have ol: "ol = [] \<longleftrightarrow> (\<forall>c \<in> set (ugcells st). cell_deleted c)"
    using types_offsets_loop_offsetlist [of "ugcells st" "[]" "[]" 0 0] loop by simp
  show ?thesis
  proof (cases "ol = []")
    case True
    then have "generate_types_offsets_text st = Inl IndexError"
      by (simp add: generate_types_offsets_text_def loop py_get_def)
    with True ol show ?thesis by simp
  next
    case False
    with ol show ?thesis by blast
  qed
qed

theorem C10_export_needs_a_cell_witness:
  "generate_types_offsets_text
      \<lparr>ugfaces = [], ugcells = [\<lparr>cell_ugfaces = [], cell_ugverts = [], cell_deleted = True\<rparr>]\<rparr> = Inl IndexError \<and>
   (generate_types_offsets_text
      \<lparr>ugfaces = [], ugcells = [\<lparr>cell_ugfaces = [0], cell_ugverts = [0, 1, 2], cell_deleted = False\<rparr>]\<rparr> =
      Inr (''42'' @ [CHR 0x0A], ''3'' @ [CHR 0x0A], 3, 1) \<and>
    (\<exists>c \<in> set [\<lparr>cell_ugfaces = [0], cell_ugverts = [0, 1, 2], cell_deleted = False\<rparr>]. \<not> cell_deleted c))"
proof -
  have r: "generate_types_offsets_text
      \<lparr>ugfaces = [], ugcells = [\<lparr>cell_ugfaces = [0], cell_ugverts = [0, 1, 2], cell_deleted = False\<rparr>]\<rparr> =
      Inr (''42'' @ [CHR 0x0A], ''3'' @ [CHR 0x0A], 3, 1)"
    by code_simp
  show ?thesis
    using C10_export_needs_a_cell [of "\<lparr>ugfaces = [], ugcells = [\<lparr>cell_ugfaces = [], cell_ugverts = [], cell_deleted = True\<rparr>]\<rparr>"]
      C10_export_needs_a_cell [of "\<lparr>ugfaces = [], ugcells = [\<lparr>cell_ugfaces = [0], cell_ugverts = [0, 1, 2], cell_deleted = False\<rparr>]\<rparr>"]
      r
    by simp
qed

section \<open>Where a polyhedron's face data starts\<close>

lemma py_get_nat_Inr: "py_get xs (int i) = Inr v \<Longrightarrow> v = xs ! i"
  by (auto simp: py_get_def Let_def split: if_splits)

lemma cell_step_offset_index:
  assumes "cell_step cn os ct cf cfo ci ls = Inr ls1"
  shows "offset_index ls1 = (if ct ! ci = 42 then cfo ! ci else offset_index ls)"
  using assms
  by (auto simp: cell_step_def Let_def split: sum.splits if_splits prod.splits dest: py_get_nat_Inr)

lemma prev_polyhedron_offset_Suc:
  "prev_polyhedron_offset ct cfo (Suc ci) =
     (if ct ! ci = 42 then cfo ! ci else prev_polyhedron_offset ct cfo ci)"
  by (simp add: prev_polyhedron_offset_def Let_def)

lemma offset_index_invariant:
  "cells_loop cn os ct cf cfo [0..<ci] (loop_init st0) = Inr ls \<Longrightarrow>
   offset_index ls = prev_polyhedron_offset ct cfo ci"
proof (induction ci arbitrary: ls)
  case 0
  then show ?case by (auto simp: loop_init_def prev_polyhedron_offset_def)
next
  case (Suc ci)
  from Suc.prems obtain ls0 where
    pre: "cells_loop cn os ct cf cfo [0..<ci] (loop_init st0) = Inr ls0"
    and step: "cell_step cn os ct cf cfo ci ls0 = Inr ls"
    by (auto simp: cells_loop_append split: sum.splits)
  from Suc.IH [OF pre] cell_step_offset_index [OF step] show ?case
    by (simp add: prev_polyhedron_offset_Suc)
qed

text \<open>
  C7, as the code has it. When the loop reaches the cell \<open>ci\<close>, \<^verbatim>\<open>offset_index\<close> holds
  the entry of \<^verbatim>\<open>cellfaceoffsets\<close> of the last polyhedron cell before \<open>ci\<close>, or 0 when
  there is none. For a polyhedron cell \<open>ci\<close> (type 42) the pass of the loop hands
  \<^verbatim>\<open>vtu_add_cell\<close> the slice of the \<^verbatim>\<open>faces\<close> block that starts there and ends before the
  position \<^verbatim>\<open>cellfaceoffsets[ci] + 1\<close>: the entries of \<^verbatim>\<open>cellfaceoffsets\<close> are end
  offsets, and the slice does not start at \<^verbatim>\<open>cellfaceoffsets[ci]\<close>.
\<close>

theorem C7_polyhedron_slice_start:
  assumes "cells_loop connectivities offsets celltypes cellfaces cellfaceoffsets [0..<ci] (loop_init st0) = Inr ls"
    and "celltypes ! ci = 42"
    and "ci < length offsets"
    and "ci < length cellfaceoffsets"
  shows "offset_index ls = prev_polyhedron_offset celltypes cellfaceoffsets ci \<and>
         cell_step connectivities offsets celltypes cellfaces cellfaceoffsets ci ls =
           (case vtu_add_cell 42
                   (py_slice connectivities (conn_index ls) (offsets ! ci))
                   (facemap_of ls)
                   (py_slice cellfaces (prev_polyhedron_offset celltypes cellfaceoffsets ci)
                      (cellfaceoffsets ! ci + 1))
                   (topo ls) of
              Inl e \<Rightarrow> Inl e
            | Inr (facemap1, st1) \<Rightarrow>
                Inr \<lparr>conn_index = conn_index ls + (offsets ! ci - conn_index ls),
                     offset_index = cellfaceoffsets ! ci,
                     facemap_of = facemap1,
                     topo = st1\<rparr>)"
proof -
  have inv: "offset_index ls = prev_polyhedron_offset celltypes cellfaceoffsets ci"
    using assms(1) by (rule offset_index_invariant)
  have "cell_step connectivities offsets celltypes cellfaces cellfaceoffsets ci ls =
           (case vtu_add_cell 42
                   (py_slice connectivities (conn_index ls) (offsets ! ci))
                   (facemap_of ls)
                   (py_slice cellfaces (offset_index ls) (cellfaceoffsets ! ci + 1))
                   (topo ls) of
              Inl e \<Rightarrow> Inl e
            | Inr (facemap1, st1) \<Rightarrow>
                Inr \<lparr>conn_index = conn_index ls + (offsets ! ci - conn_index ls),
                     offset_index = cellfaceoffsets ! ci,
                     facemap_of = facemap1,
                     topo = st1\<rparr>)"
    using assms(2-4) by (simp add: cell_step_def Let_def py_get_nat polyfacelist_slice_def)
  with inv show ?thesis by simp
qed

theorem C7_polyhedron_slice_start_witness:
  "\<exists>ls. cells_loop [0,1,2,3, 0,1,2,4] [4, 8] [42, 42] [1, 3,0,1,2, 1, 3,0,1,4] [5, 10] [0..<1]
           (loop_init \<lparr>ugfaces = [], ugcells = []\<rparr>) = Inr ls \<and>
        offset_index ls = 5 \<and>
        cell_step [0,1,2,3, 0,1,2,4] [4, 8] [42, 42] [1, 3,0,1,2, 1, 3,0,1,4] [5, 10] 1 ls =
          (case vtu_add_cell 42 (py_slice [0,1,2,3, 0,1,2,4] (conn_index ls) 8) (facemap_of ls)
                  [1, 3,0,1,4] (topo ls) of
             Inl e \<Rightarrow> Inl e
           | Inr (facemap1, st1) \<Rightarrow>
               Inr \<lparr>conn_index = conn_index ls + (8 - conn_index ls),
                    offset_index = 10,
                    facemap_of = facemap1,
                    topo = st1\<rparr>)"
proof -
  have "\<not> isl (cells_loop [0,1,2,3, 0,1,2,4] [4, 8] [42, 42] [1, 3,0,1,2, 1, 3,0,1,4] [5, 10] [0..<1]
       (loop_init \<lparr>ugfaces = [], ugcells = []\<rparr>))"
    by code_simp
  then obtain ls where pre:
    "cells_loop [0,1,2,3, 0,1,2,4] [4, 8] [42, 42] [1, 3,0,1,2, 1, 3,0,1,4] [5, 10] [0..<1]
       (loop_init \<lparr>ugfaces = [], ugcells = []\<rparr>) = Inr ls"
    by (metis sum.collapse(2))
  have t: "[42, 42] ! 1 = (42::int)" and o: "1 < length [4, 8 :: int]" and c: "1 < length [5, 10 :: int]"
    by simp_all
  have p: "prev_polyhedron_offset [42, 42] [5, 10] 1 = 5"
    by code_simp
  have q: "py_slice [1, 3,0,1,2, 1, 3,0,1,4] 5 (10 + 1) = [1, 3,0,1,4 :: int]"
    by code_simp
  have n: "[4, 8] ! 1 = (8::int)" "[5, 10] ! 1 = (10::int)"
    by simp_all
  from C7_polyhedron_slice_start [OF pre t o c] show ?thesis
    unfolding p n q using pre by blast
qed

text \<open>
  Two polyhedron cells of one triangle each, with the face offsets 5 and 10: the slice of
  the second cell starts at position 5, not at \<^verbatim>\<open>cellfaceoffsets[1]\<close>, which is 10.
\<close>

theorem C7_counterexample:
  "map_sum fst offset_index
     (cells_loop [0,1,2,3, 0,1,2,4] [4, 8] [42, 42] [1, 3,0,1,2, 1, 3,0,1,4] [5, 10] [0..<1]
        (loop_init \<lparr>ugfaces = [], ugcells = []\<rparr>)) = Inr 5 \<and>
   [5, 10] ! 1 = (10::int) \<and>
   polyfacelist_slice [1, 3,0,1,2, 1, 3,0,1,4] 5 ([5, 10] ! 1) = [1, 3,0,1,4] \<and>
   vtu_datalists_to_ugdata [0,1,2,3, 0,1,2,4] [4, 8] [42, 42] [1, 3,0,1,2, 1, 3,0,1,4] [5, 10]
     \<lparr>ugfaces = [], ugcells = []\<rparr> =
   Inr \<lparr>ugfaces = [\<lparr>face_ugverts = [0, 1, 2], owner = Some 0, neighbour = None\<rparr>,
                   \<lparr>face_ugverts = [0, 1, 4], owner = Some 1, neighbour = None\<rparr>],
        ugcells = [\<lparr>cell_ugfaces = [0], cell_ugverts = [0, 1, 2], cell_deleted = False\<rparr>,
                   \<lparr>cell_ugfaces = [1], cell_ugverts = [0, 1, 4], cell_deleted = False\<rparr>]\<rparr>"
  by code_simp

section \<open>Two cells that share one face\<close>

lemma fresh_face_ugfaces:
  "ugfaces (set_owner (length (ugfaces st)) c (UGFace rv st)) = ugfaces st @ [new_face c rv]"
  by (simp add: set_owner_def UGFace_def new_face_def)

lemma fresh_face_ncells:
  "length (ugcells (add_face_and_verts c n (set_owner n c (UGFace rv st)))) = length (ugcells st)"
  by (simp add: set_owner_def UGFace_def add_face_and_verts_def Let_def)

lemma relink_ncells:
  "length (ugcells (add_face_and_verts c ugf (set_neighbour ugf c st))) = length (ugcells st)"
  by (simp add: set_neighbour_def add_face_and_verts_def Let_def)

lemma add_cell_faces_fresh:
  assumes "distinct (map get_vert_string rvs)"
    and "\<forall>rv \<in> set rvs. fm (get_vert_string rv) = None"
  shows "\<exists>fm' st'. add_cell_faces c rvs vl fm True st = Inr (fm', st') \<and>
           ugfaces st' = ugfaces st @ map (new_face c) rvs \<and>
           length (ugcells st') = length (ugcells st) \<and>
           (\<forall>i < length rvs. fm' (get_vert_string (rvs ! i)) = Some (length (ugfaces st) + i)) \<and>
           (\<forall>k. k \<notin> get_vert_string ` set rvs \<longrightarrow> fm' k = fm k)"
  using assms
proof (induction rvs arbitrary: fm st)
  case Nil
  then show ?case by simp
next
  case (Cons rv rvs)
  let ?k = "get_vert_string rv"
  let ?n = "length (ugfaces st)"
  let ?st1 = "add_face_and_verts c ?n (set_owner ?n c (UGFace rv st))"
  let ?fm1 = "fm(?k \<mapsto> ?n)"
  have knew: "?k \<notin> get_vert_string ` set rvs" using Cons.prems(1) by simp
  have d: "distinct (map get_vert_string rvs)" using Cons.prems(1) by simp
  have none: "\<forall>rv' \<in> set rvs. ?fm1 (get_vert_string rv') = None"
  proof
    fix rv' assume a: "rv' \<in> set rvs"
    with knew have "get_vert_string rv' \<noteq> ?k" by (metis imageI)
    with Cons.prems(2) a show "?fm1 (get_vert_string rv') = None" by simp
  qed
  from Cons.IH [OF d none, of ?st1] obtain fm' st' where
    r: "add_cell_faces c rvs vl ?fm1 True ?st1 = Inr (fm', st')"
    and f: "ugfaces st' = ugfaces ?st1 @ map (new_face c) rvs"
    and n: "length (ugcells st') = length (ugcells ?st1)"
    and m: "\<forall>i < length rvs. fm' (get_vert_string (rvs ! i)) = Some (length (ugfaces ?st1) + i)"
    and o: "\<forall>k. k \<notin> get_vert_string ` set rvs \<longrightarrow> fm' k = ?fm1 k"
    by blast
  have step: "add_cell_faces c (rv # rvs) vl fm True st = Inr (fm', st')"
    using Cons.prems(2) r by (simp add: real_vilist_def Let_def)
  have f': "ugfaces st' = ugfaces st @ map (new_face c) (rv # rvs)"
    using f by (simp add: fresh_face_ugfaces)
  have n': "length (ugcells st') = length (ugcells st)"
    using n by (simp add: fresh_face_ncells)
  have m': "fm' (get_vert_string ((rv # rvs) ! i)) = Some (?n + i)" if "i < length (rv # rvs)" for i
  proof (cases i)
    case 0
    with o knew show ?thesis by simp
  next
    case (Suc j)
    with that m show ?thesis by (simp add: fresh_face_ugfaces)
  qed
  have o': "\<forall>k. k \<notin> get_vert_string ` set (rv # rvs) \<longrightarrow> fm' k = fm k"
    using o by auto
  from step f' n' m' o' show ?case by blast
qed

lemma add_cell_faces_one_shared:
  assumes "distinct (map get_vert_string rvs)"
    and "j0 < length rvs"
    and "fm (get_vert_string (rvs ! j0)) = Some i"
    and "i < length (ugfaces st)"
    and "\<forall>j < length rvs. j \<noteq> j0 \<longrightarrow> fm (get_vert_string (rvs ! j)) = None"
  shows "\<exists>fm' st'. add_cell_faces c rvs vl fm True st = Inr (fm', st') \<and>
           ugfaces st' = (ugfaces st)[i := (ugfaces st ! i)\<lparr>neighbour := Some c\<rparr>]
                           @ map (new_face c) (take j0 rvs @ drop (Suc j0) rvs) \<and>
           length (ugcells st') = length (ugcells st)"
  using assms
proof (induction rvs arbitrary: fm st j0)
  case Nil
  then show ?case by simp
next
  case (Cons rv rvs)
  let ?k = "get_vert_string rv"
  have knew: "?k \<notin> get_vert_string ` set rvs" using Cons.prems(1) by simp
  have d: "distinct (map get_vert_string rvs)" using Cons.prems(1) by simp
  show ?case
  proof (cases j0)
    case 0
    let ?st1 = "add_face_and_verts c i (set_neighbour i c st)"
    have hit: "fm ?k = Some i" using Cons.prems(3) 0 by simp
    have none: "\<forall>rv' \<in> set rvs. fm (get_vert_string rv') = None"
    proof
      fix rv' assume "rv' \<in> set rvs"
      then obtain j where "j < length rvs" "rvs ! j = rv'" by (auto simp: in_set_conv_nth)
      with Cons.prems(5) [rule_format, of "Suc j"] 0 show "fm (get_vert_string rv') = None" by simp
    qed
    from add_cell_faces_fresh [OF d none, of c vl ?st1] obtain fm' st' where
      r: "add_cell_faces c rvs vl fm True ?st1 = Inr (fm', st')"
      and f: "ugfaces st' = ugfaces ?st1 @ map (new_face c) rvs"
      and n: "length (ugcells st') = length (ugcells ?st1)"
      by blast
    have "add_cell_faces c (rv # rvs) vl fm True st = Inr (fm', st')"
      using hit r by (simp add: real_vilist_def Let_def)
    moreover have "ugfaces st' = (ugfaces st)[i := (ugfaces st ! i)\<lparr>neighbour := Some c\<rparr>]
                           @ map (new_face c) (take j0 (rv # rvs) @ drop (Suc j0) (rv # rvs))"
      using f 0 by (simp add: set_neighbour_def)
    moreover have "length (ugcells st') = length (ugcells st)"
      using n by (simp add: relink_ncells)
    ultimately show ?thesis by blast
  next
    case (Suc j)
    let ?n = "length (ugfaces st)"
    let ?st1 = "add_face_and_verts c ?n (set_owner ?n c (UGFace rv st))"
    let ?fm1 = "fm(?k \<mapsto> ?n)"
    have j: "j < length rvs" using Cons.prems(2) Suc by simp
    have miss: "fm ?k = None" using Cons.prems(5) [rule_format, of 0] Suc by simp
    have kj: "get_vert_string (rvs ! j) \<noteq> ?k" using knew j by (metis image_eqI nth_mem)
    have hit: "?fm1 (get_vert_string (rvs ! j)) = Some i"
      using Cons.prems(3) Suc kj by simp
    have i1: "i < length (ugfaces ?st1)" using Cons.prems(4) by (simp add: fresh_face_ugfaces)
    have none: "\<forall>j' < length rvs. j' \<noteq> j \<longrightarrow> ?fm1 (get_vert_string (rvs ! j')) = None"
    proof (intro allI impI)
      fix j' assume a: "j' < length rvs" "j' \<noteq> j"
      then have "get_vert_string (rvs ! j') \<noteq> ?k" using knew by (metis image_eqI nth_mem)
      moreover have "fm (get_vert_string (rvs ! j')) = None"
        using Cons.prems(5) [rule_format, of "Suc j'"] a Suc by simp
      ultimately show "?fm1 (get_vert_string (rvs ! j')) = None" by simp
    qed
    from Cons.IH [OF d j hit i1 none] obtain fm' st' where
      r: "add_cell_faces c rvs vl ?fm1 True ?st1 = Inr (fm', st')"
      and f: "ugfaces st' = (ugfaces ?st1)[i := (ugfaces ?st1 ! i)\<lparr>neighbour := Some c\<rparr>]
                           @ map (new_face c) (take j rvs @ drop (Suc j) rvs)"
      and n: "length (ugcells st') = length (ugcells ?st1)"
      by blast
    have "add_cell_faces c (rv # rvs) vl fm True st = Inr (fm', st')"
      using miss r by (simp add: real_vilist_def Let_def)
    moreover have "ugfaces st' = (ugfaces st)[i := (ugfaces st ! i)\<lparr>neighbour := Some c\<rparr>]
                           @ map (new_face c) (take j0 (rv # rvs) @ drop (Suc j0) (rv # rvs))"
      using f Suc Cons.prems(4) by (simp add: fresh_face_ugfaces list_update_append nth_append)
    moreover have "length (ugcells st') = length (ugcells st)"
      using n by (simp add: fresh_face_ncells)
    ultimately show ?thesis by blast
  qed
qed

lemma map_err_py_get:
  "\<forall>v \<in> set fv. 0 \<le> v \<and> v < int (length vilist) \<Longrightarrow>
   map_err (py_get vilist) fv = Inr (map (\<lambda>v. vilist ! nat v) fv)"
  by (induction fv) (simp_all add: py_get_def)

lemma add_cell_faces_resolved:
  "\<forall>fv \<in> set fis. \<forall>v \<in> set fv. 0 \<le> v \<and> v < int (length vilist) \<Longrightarrow>
   add_cell_faces c fis vilist fm False st =
   add_cell_faces c (cell_face_verts vilist fis) vilist fm True st"
proof (induction fis arbitrary: fm st)
  case Nil
  then show ?case by (simp add: cell_face_verts_def)
next
  case (Cons fv fis)
  have r: "map_err (py_get vilist) fv = Inr (map (\<lambda>v. vilist ! nat v) fv)"
    using Cons.prems by (simp add: map_err_py_get)
  have rest: "\<forall>fv \<in> set fis. \<forall>v \<in> set fv. 0 \<le> v \<and> v < int (length vilist)"
    using Cons.prems by simp
  have c: "cell_face_verts vilist (fv # fis) = map (\<lambda>v. vilist ! nat v) fv # cell_face_verts vilist fis"
    by (simp add: cell_face_verts_def)
  show ?case
    unfolding c
    by (simp add: r real_vilist_def Let_def Cons.IH [OF rest] fun_upd_def split: option.splits)
qed

lemma two_cells_one_shared_face:
  assumes d1: "distinct (map get_vert_string F1)" and d2: "distinct (map get_vert_string F2)"
    and i0: "i0 < length F1" and j0: "j0 < length F2"
    and eq: "get_vert_string (F1 ! i0) = get_vert_string (F2 ! j0)"
    and only: "\<forall>i < length F1. \<forall>j < length F2.
                 get_vert_string (F1 ! i) = get_vert_string (F2 ! j) \<longrightarrow> i = i0 \<and> j = j0"
  shows "\<exists>fm1 sta fm2 stb.
           add_cell_faces c1 F1 vl1 Map.empty True st = Inr (fm1, sta) \<and>
           add_cell_faces c2 F2 vl2 fm1 True (UGCell sta) = Inr (fm2, stb) \<and>
           length (ugcells sta) = length (ugcells st) \<and>
           length (ugcells stb) = Suc (length (ugcells st)) \<and>
           ugfaces stb = ugfaces st @
             (map (new_face c1) F1)[i0 := (new_face c1 (F1 ! i0))\<lparr>neighbour := Some c2\<rparr>] @
             map (new_face c2) (take j0 F2 @ drop (Suc j0) F2)"
proof -
  let ?n = "length (ugfaces st)"
  have none1: "\<forall>rv \<in> set F1. Map.empty (get_vert_string rv) = None" by simp
  from add_cell_faces_fresh [OF d1 none1, of c1 vl1 st] obtain fm1 sta where
    r1: "add_cell_faces c1 F1 vl1 Map.empty True st = Inr (fm1, sta)"
    and f1: "ugfaces sta = ugfaces st @ map (new_face c1) F1"
    and n1: "length (ugcells sta) = length (ugcells st)"
    and m1: "\<forall>i < length F1. fm1 (get_vert_string (F1 ! i)) = Some (?n + i)"
    and o1: "\<forall>k. k \<notin> get_vert_string ` set F1 \<longrightarrow> fm1 k = None"
    by auto
  have hit: "fm1 (get_vert_string (F2 ! j0)) = Some (?n + i0)"
    using m1 i0 eq by metis
  have inrange: "?n + i0 < length (ugfaces (UGCell sta))"
    using f1 i0 by simp
  have miss: "\<forall>j < length F2. j \<noteq> j0 \<longrightarrow> fm1 (get_vert_string (F2 ! j)) = None"
  proof (intro allI impI)
    fix j assume j: "j < length F2" "j \<noteq> j0"
    have "get_vert_string (F2 ! j) \<notin> get_vert_string ` set F1"
    proof
      assume "get_vert_string (F2 ! j) \<in> get_vert_string ` set F1"
      then obtain i where "i < length F1" "get_vert_string (F1 ! i) = get_vert_string (F2 ! j)"
        by (auto simp: in_set_conv_nth)
      with only j show False by blast
    qed
    with o1 show "fm1 (get_vert_string (F2 ! j)) = None" by blast
  qed
  from add_cell_faces_one_shared [OF d2 j0 hit inrange miss, of c2 vl2] obtain fm2 stb where
    r2: "add_cell_faces c2 F2 vl2 fm1 True (UGCell sta) = Inr (fm2, stb)"
    and f2: "ugfaces stb = (ugfaces (UGCell sta))[?n + i0 := (ugfaces (UGCell sta) ! (?n + i0))\<lparr>neighbour := Some c2\<rparr>]
                           @ map (new_face c2) (take j0 F2 @ drop (Suc j0) F2)"
    and n2: "length (ugcells stb) = length (ugcells (UGCell sta))"
    by blast
  have f2': "ugfaces stb = ugfaces st @
             (map (new_face c1) F1)[i0 := (new_face c1 (F1 ! i0))\<lparr>neighbour := Some c2\<rparr>] @
             map (new_face c2) (take j0 F2 @ drop (Suc j0) F2)"
    using f2 f1 i0 by (simp add: list_update_append nth_append)
  have n2': "length (ugcells stb) = Suc (length (ugcells st))"
    using n2 n1 by (simp add: UGCell_def)
  from r1 r2 n1 n2' f2' show ?thesis by blast
qed

lemma distinct_map_coarser:
  assumes "distinct (map g xs)" and "\<And>a b. a \<in> set xs \<Longrightarrow> b \<in> set xs \<Longrightarrow> f a = f b \<Longrightarrow> g a = g b"
  shows "distinct (map f xs)"
  using assms
proof (induction xs)
  case Nil
  then show ?case by simp
next
  case (Cons x xs)
  have "f x \<notin> f ` set xs"
  proof
    assume "f x \<in> f ` set xs"
    then obtain y where y: "y \<in> set xs" "f x = f y" by auto
    with Cons.prems(2) [of x y] have "g x = g y" by simp
    with y Cons.prems(1) show False by auto
  qed
  moreover have "distinct (map f xs)"
    using Cons by simp
  ultimately show ?case by simp
qed

lemma hexahedron_fis_distinct: "\<forall>fv \<in> set hexahedron_fis. distinct fv"
  by (simp add: hexahedron_fis_def)

lemma hexahedron_fis_sorted: "distinct (map sort hexahedron_fis)"
  by (simp add: hexahedron_fis_def)

lemma hexahedron_fis_sets: "distinct (map set hexahedron_fis)"
proof (rule distinct_map_coarser [OF hexahedron_fis_sorted])
  fix a b :: "int list"
  assume "a \<in> set hexahedron_fis" "b \<in> set hexahedron_fis" "set a = set b"
  with hexahedron_fis_distinct have "mset a = mset b"
    by (simp add: set_eq_iff_mset_eq_distinct)
  then show "sort a = sort b"
    by (metis mset_sort properties_for_sort sorted_sort)
qed

lemma hexahedron_fis_range: "\<forall>fv \<in> set hexahedron_fis. \<forall>x \<in> set fv. 0 \<le> x \<and> x < 8"
  by (simp add: hexahedron_fis_def)

lemma nth_nat_inj_on:
  assumes "distinct v"
  shows "inj_on (\<lambda>x. v ! nat x) {x. 0 \<le> x \<and> x < int (length v)}"
proof (rule inj_onI)
  fix x y
  assume x: "x \<in> {x. 0 \<le> x \<and> x < int (length v)}" and y: "y \<in> {x. 0 \<le> x \<and> x < int (length v)}"
    and eq: "v ! nat x = v ! nat y"
  from x y have "nat x < length v" "nat y < length v" by auto
  with assms eq have "nat x = nat y" by (simp add: nth_eq_iff_index_eq)
  with x y show "x = y" by auto
qed

lemma hexahedron_faces_distinct_sets:
  assumes "length v = 8" and "distinct v"
  shows "distinct (map set (cell_face_verts v hexahedron_fis))"
proof -
  let ?f = "\<lambda>x. v ! nat x"
  let ?C = "{x. 0 \<le> x \<and> x < int (length v)}"
  have inj: "inj_on ?f ?C" using assms(2) by (rule nth_nat_inj_on)
  have sub: "set fv \<subseteq> ?C" if "fv \<in> set hexahedron_fis" for fv
  proof
    fix x assume "x \<in> set fv"
    with hexahedron_fis_range that have "0 \<le> x \<and> x < 8" by blast
    with assms(1) show "x \<in> ?C" by simp
  qed
  have "distinct (map (\<lambda>fv. ?f ` set fv) hexahedron_fis)"
  proof (rule distinct_map_coarser [OF hexahedron_fis_sets])
    fix a b
    assume a: "a \<in> set hexahedron_fis" and b: "b \<in> set hexahedron_fis"
      and eq: "?f ` set a = ?f ` set b"
    from inj_on_image_eq_iff [OF inj sub [OF a] sub [OF b]] eq show "set a = set b" by blast
  qed
  moreover have "map (\<lambda>fv. ?f ` set fv) hexahedron_fis = map set (cell_face_verts v hexahedron_fis)"
    unfolding cell_face_verts_def by (simp only: map_map comp_def set_map)
  ultimately show ?thesis by (simp only:)
qed

lemma hexahedron_faces_distinct:
  assumes "length v = 8" and "distinct v"
  shows "\<forall>rv \<in> set (cell_face_verts v hexahedron_fis). distinct rv"
proof
  fix rv assume "rv \<in> set (cell_face_verts v hexahedron_fis)"
  then obtain fv where fv: "fv \<in> set hexahedron_fis" and rv: "rv = map (\<lambda>x. v ! nat x) fv"
    by (auto simp: cell_face_verts_def)
  have "inj_on (\<lambda>x. v ! nat x) {x. 0 \<le> x \<and> x < int (length v)}"
    using assms(2) by (rule nth_nat_inj_on)
  moreover have "set fv \<subseteq> {x. 0 \<le> x \<and> x < int (length v)}"
    using hexahedron_fis_range fv assms(1) by auto
  ultimately have "inj_on (\<lambda>x. v ! nat x) (set fv)" by (rule inj_on_subset)
  moreover have "distinct fv" using hexahedron_fis_distinct fv by blast
  ultimately show "distinct rv" unfolding rv by (simp add: distinct_map)
qed

lemma hexahedron_faces_length: "length (cell_face_verts v hexahedron_fis) = 6"
  by (simp add: cell_face_verts_def hexahedron_fis_def)

lemma get_vert_string_set:
  "distinct xs \<Longrightarrow> distinct ys \<Longrightarrow> get_vert_string xs = get_vert_string ys \<longleftrightarrow> set xs = set ys"
  by (simp add: get_vert_string_mset set_eq_iff_mset_eq_distinct)

lemma hexahedron_faces_distinct_keys:
  assumes "length v = 8" and "distinct v"
  shows "distinct (map get_vert_string (cell_face_verts v hexahedron_fis))"
proof (rule distinct_map_coarser [OF hexahedron_faces_distinct_sets [OF assms]])
  fix a b
  assume "a \<in> set (cell_face_verts v hexahedron_fis)" "b \<in> set (cell_face_verts v hexahedron_fis)"
    and "get_vert_string a = get_vert_string b"
  then show "set a = set b"
    by (metis get_vert_string_mset mset_eq_setD)
qed

lemma remove_nth_other:
  assumes "j0 < length xs" and "m < length xs - 1"
  shows "\<exists>j < length xs. j \<noteq> j0 \<and> (take j0 xs @ drop (Suc j0) xs) ! m = xs ! j"
proof (cases "m < j0")
  case True
  with assms have "(take j0 xs @ drop (Suc j0) xs) ! m = xs ! m" "m < length xs" "m \<noteq> j0"
    by (simp_all add: nth_append)
  then show ?thesis by blast
next
  case False
  with assms have "(take j0 xs @ drop (Suc j0) xs) ! m = xs ! Suc m" "Suc m < length xs" "Suc m \<noteq> j0"
    by (simp_all add: nth_append min_def)
  then show ?thesis by blast
qed

lemma py_slice_first: "length a = n \<Longrightarrow> py_slice (a @ b) 0 (int n) = a"
  by (simp add: py_slice_def clip_index_def Let_def)

lemma py_slice_second:
  "length a = n \<Longrightarrow> length b = m \<Longrightarrow> py_slice (a @ b) (int n) (int n + int m) = b"
  by (simp add: py_slice_def clip_index_def Let_def nat_add_distrib)

lemma vtu_add_cell_hexahedron:
  assumes "length v = 8"
  shows "vtu_add_cell 12 v fm pfl st =
         add_cell_faces (length (ugcells st)) (cell_face_verts v hexahedron_fis) v fm True (UGCell st)"
proof -
  have "\<forall>fv \<in> set hexahedron_fis. \<forall>x \<in> set fv. 0 \<le> x \<and> x < int (length v)"
    using hexahedron_fis_range assms by simp
  from add_cell_faces_resolved [OF this]
  have "add_cell_faces (length (ugcells st)) hexahedron_fis v fm False (UGCell st) =
        add_cell_faces (length (ugcells st)) (cell_face_verts v hexahedron_fis) v fm True (UGCell st)" .
  then show ?thesis
    by (simp add: vtu_add_cell_def Let_def hexahedron_fis_def)
qed

lemma two_hexahedra_import:
  assumes "length v1 = 8" and "length v2 = 8"
  shows "vtu_datalists_to_ugdata (v1 @ v2) [8, 16] [12, 12] cellfaces cellfaceoffsets st0 =
     (case add_cell_faces (length (ugcells st0)) (cell_face_verts v1 hexahedron_fis) v1 Map.empty True (UGCell st0) of
        Inl e \<Rightarrow> Inl e
      | Inr (fm1, sta) \<Rightarrow>
          (case add_cell_faces (length (ugcells sta)) (cell_face_verts v2 hexahedron_fis) v2 fm1 True (UGCell sta) of
             Inl e \<Rightarrow> Inl e
           | Inr (fm2, stb) \<Rightarrow> Inr stb))"
proof -
  have u: "[0..<length [12, 12 :: int]] = [0, Suc 0]" by (simp add: upt_rec)
  have s1: "py_slice (v1 @ v2) 0 8 = v1" using py_slice_first [of v1 8 v2] assms by simp
  have s2: "py_slice (v1 @ v2) 8 16 = v2" using py_slice_second [of v1 8 v2 8] assms by simp
  show ?thesis
    unfolding vtu_datalists_to_ugdata_def u
    by (simp add: cell_step_def loop_init_def py_get_def Let_def s1 s2
          vtu_add_cell_hexahedron [OF assms(1)] vtu_add_cell_hexahedron [OF assms(2)]
        split: sum.splits prod.splits)
qed

text \<open>
  C2. Two hexahedron cells (type 12) are imported, each with eight distinct vertices, and
  exactly one pair of their faces has the same set of four vertex indices (the face \<open>i0\<close>
  of the first cell and the face \<open>j0\<close> of the second). Then the import returns, it adds
  eleven face records, and exactly one of them has the vertex set of the shared face: the
  record the first cell created, whose owner is the first cell and whose neighbour is the
  second cell.
\<close>

theorem C2_two_hexahedra_share_one_face:
  assumes len: "length v1 = 8" "length v2 = 8"
    and dist: "distinct v1" "distinct v2"
    and i0: "i0 < 6" and j0: "j0 < 6"
    and shared: "set (cell_face_verts v1 hexahedron_fis ! i0) = set (cell_face_verts v2 hexahedron_fis ! j0)"
    and only: "\<forall>i < 6. \<forall>j < 6.
                 set (cell_face_verts v1 hexahedron_fis ! i) = set (cell_face_verts v2 hexahedron_fis ! j)
                 \<longrightarrow> i = i0 \<and> j = j0"
  shows "\<exists>st' new.
           vtu_datalists_to_ugdata (v1 @ v2) [8, 16] [12, 12] cellfaces cellfaceoffsets st0 = Inr st' \<and>
           ugfaces st' = ugfaces st0 @ new \<and>
           length new = 11 \<and>
           new ! i0 = \<lparr>face_ugverts = cell_face_verts v1 hexahedron_fis ! i0,
                        owner = Some (length (ugcells st0)),
                        neighbour = Some (Suc (length (ugcells st0)))\<rparr> \<and>
           (\<forall>k < 11. set (face_ugverts (new ! k)) = set (cell_face_verts v1 hexahedron_fis ! i0)
                      \<longrightarrow> k = i0)"
proof -
  let ?F1 = "cell_face_verts v1 hexahedron_fis"
  let ?F2 = "cell_face_verts v2 hexahedron_fis"
  let ?c1 = "length (ugcells st0)"
  let ?c2 = "Suc (length (ugcells st0))"
  have l1: "length ?F1 = 6" and l2: "length ?F2 = 6" by (rule hexahedron_faces_length)+
  have d1: "distinct (map get_vert_string ?F1)" using len(1) dist(1) by (rule hexahedron_faces_distinct_keys)
  have d2: "distinct (map get_vert_string ?F2)" using len(2) dist(2) by (rule hexahedron_faces_distinct_keys)
  have s1: "distinct (map set ?F1)" using len(1) dist(1) by (rule hexahedron_faces_distinct_sets)
  have s2: "distinct (map set ?F2)" using len(2) dist(2) by (rule hexahedron_faces_distinct_sets)
  have key_set: "get_vert_string (?F1 ! i) = get_vert_string (?F2 ! j) \<longleftrightarrow> set (?F1 ! i) = set (?F2 ! j)"
    if "i < 6" "j < 6" for i j
  proof -
    have "distinct (?F1 ! i)" using hexahedron_faces_distinct [OF len(1) dist(1)] that(1) l1 by simp
    moreover have "distinct (?F2 ! j)" using hexahedron_faces_distinct [OF len(2) dist(2)] that(2) l2 by simp
    ultimately show ?thesis by (rule get_vert_string_set)
  qed
  have eq: "get_vert_string (?F1 ! i0) = get_vert_string (?F2 ! j0)"
    using key_set [OF i0 j0] shared by simp
  have only': "\<forall>i < length ?F1. \<forall>j < length ?F2.
                 get_vert_string (?F1 ! i) = get_vert_string (?F2 ! j) \<longrightarrow> i = i0 \<and> j = j0"
    using only key_set l1 l2 by simp
  have i0': "i0 < length ?F1" and j0': "j0 < length ?F2" using i0 j0 l1 l2 by simp_all
  from two_cells_one_shared_face [OF d1 d2 i0' j0' eq only', of ?c1 v1 "UGCell st0" ?c2 v2]
  obtain fm1 sta fm2 stb where
    r1: "add_cell_faces ?c1 ?F1 v1 Map.empty True (UGCell st0) = Inr (fm1, sta)"
    and r2: "add_cell_faces ?c2 ?F2 v2 fm1 True (UGCell sta) = Inr (fm2, stb)"
    and n1: "length (ugcells sta) = length (ugcells (UGCell st0))"
    and f: "ugfaces stb = ugfaces (UGCell st0) @
             (map (new_face ?c1) ?F1)[i0 := (new_face ?c1 (?F1 ! i0))\<lparr>neighbour := Some ?c2\<rparr>] @
             map (new_face ?c2) (take j0 ?F2 @ drop (Suc j0) ?F2)"
    by blast
  define A where "A = (map (new_face ?c1) ?F1)[i0 := (new_face ?c1 (?F1 ! i0))\<lparr>neighbour := Some ?c2\<rparr>]"
  define R where "R = take j0 ?F2 @ drop (Suc j0) ?F2"
  let ?new = "A @ map (new_face ?c2) R"
  have c2: "length (ugcells sta) = ?c2" using n1 by (simp add: UGCell_def)
  have res: "vtu_datalists_to_ugdata (v1 @ v2) [8, 16] [12, 12] cellfaces cellfaceoffsets st0 = Inr stb"
    unfolding two_hexahedra_import [OF len] by (simp add: r1 c2 r2)
  have faces: "ugfaces stb = ugfaces st0 @ ?new" using f by (simp add: A_def R_def)
  have lA: "length A = 6" using l1 by (simp add: A_def)
  have lR: "length R = 5" using l2 j0 by (simp add: R_def)
  have lnew: "length ?new = 11" using lA lR by simp
  have A_verts: "face_ugverts (A ! k) = ?F1 ! k" if "k < 6" for k
    using that l1 by (cases "k = i0") (simp_all add: A_def new_face_def)
  have at_i0: "?new ! i0 = \<lparr>face_ugverts = ?F1 ! i0, owner = Some ?c1, neighbour = Some ?c2\<rparr>"
    using i0 l1 lA by (simp add: nth_append) (simp add: A_def new_face_def)
  have uniq: "k = i0" if k: "k < 11" and sk: "set (face_ugverts (?new ! k)) = set (?F1 ! i0)" for k
  proof (cases "k < 6")
    case True
    then have "face_ugverts (?new ! k) = ?F1 ! k"
      using lA A_verts by (simp add: nth_append)
    with sk have e: "map set ?F1 ! k = map set ?F1 ! i0" using True i0 l1 by simp
    have "(map set ?F1 ! k = map set ?F1 ! i0) = (k = i0)"
      using s1 True i0 l1 by (intro nth_eq_iff_index_eq) simp_all
    with e show ?thesis by blast
  next
    case False
    with k have m: "k - 6 < length ?F2 - 1" using l2 by simp
    from remove_nth_other [OF j0' m] obtain j where
      j: "j < length ?F2" "j \<noteq> j0" "R ! (k - 6) = ?F2 ! j" unfolding R_def by blast
    have "k - 6 < length R" using False k lR by simp
    then have "face_ugverts (?new ! k) = R ! (k - 6)"
      using False lA by (simp add: nth_append new_face_def)
    with sk j(3) shared have e: "map set ?F2 ! j = map set ?F2 ! j0" using j(1) j0 l2 by simp
    have "(map set ?F2 ! j = map set ?F2 ! j0) = (j = j0)"
      using s2 j(1) j0 l2 by (intro nth_eq_iff_index_eq) simp_all
    with e j(2) show ?thesis by blast
  qed
  from res faces lnew at_i0 uniq show ?thesis by blast
qed

theorem C2_two_hexahedra_share_one_face_witness:
  "\<exists>st' new.
     vtu_datalists_to_ugdata ([0, 1, 2, 3, 4, 5, 6, 7] @ [4, 5, 6, 7, 8, 9, 10, 11]) [8, 16] [12, 12] [] []
       \<lparr>ugfaces = [], ugcells = []\<rparr> = Inr st' \<and>
     ugfaces st' = [] @ new \<and>
     length new = 11 \<and>
     new ! 5 = \<lparr>face_ugverts = [7, 4, 5, 6], owner = Some 0, neighbour = Some (Suc 0)\<rparr> \<and>
     (\<forall>k < 11. set (face_ugverts (new ! k)) = set [7, 4, 5, 6] \<longrightarrow> k = 5)"
proof -
  let ?v1 = "[0, 1, 2, 3, 4, 5, 6, 7] :: int list"
  let ?v2 = "[4, 5, 6, 7, 8, 9, 10, 11] :: int list"
  have F1: "cell_face_verts ?v1 hexahedron_fis =
      [[0, 3, 2, 1], [0, 1, 5, 4], [1, 2, 6, 5], [2, 3, 7, 6], [3, 0, 4, 7], [7, 4, 5, 6]]"
    by (simp add: cell_face_verts_def hexahedron_fis_def)
  have F2: "cell_face_verts ?v2 hexahedron_fis =
      [[4, 7, 6, 5], [4, 5, 9, 8], [5, 6, 10, 9], [6, 7, 11, 10], [7, 4, 8, 11], [11, 8, 9, 10]]"
    by (simp add: cell_face_verts_def hexahedron_fis_def)
  have shared: "set (cell_face_verts ?v1 hexahedron_fis ! 5) = set (cell_face_verts ?v2 hexahedron_fis ! 0)"
    unfolding F1 F2 by code_simp
  have all: "\<forall>i \<in> set [0..<6]. \<forall>j \<in> set [0..<6].
          set ([[0, 3, 2, 1], [0, 1, 5, 4], [1, 2, 6, 5], [2, 3, 7, 6], [3, 0, 4, 7], [7, 4, 5, 6 :: int]] ! i) =
          set ([[4, 7, 6, 5], [4, 5, 9, 8], [5, 6, 10, 9], [6, 7, 11, 10], [7, 4, 8, 11], [11, 8, 9, 10]] ! j)
          \<longrightarrow> i = 5 \<and> j = 0"
    by code_simp
  have only: "\<forall>i < 6. \<forall>j < 6.
      set (cell_face_verts ?v1 hexahedron_fis ! i) = set (cell_face_verts ?v2 hexahedron_fis ! j)
      \<longrightarrow> i = 5 \<and> j = 0"
    unfolding F1 F2
  proof (intro allI impI)
    fix i j :: nat
    assume "i < 6" "j < 6"
    then have "i \<in> set [0..<6]" "j \<in> set [0..<6]" by simp_all
    moreover assume "set ([[0, 3, 2, 1], [0, 1, 5, 4], [1, 2, 6, 5], [2, 3, 7, 6], [3, 0, 4, 7], [7, 4, 5, 6 :: int]] ! i) =
          set ([[4, 7, 6, 5], [4, 5, 9, 8], [5, 6, 10, 9], [6, 7, 11, 10], [7, 4, 8, 11], [11, 8, 9, 10]] ! j)"
    ultimately show "i = 5 \<and> j = 0" using all by blast
  qed
  have h: "length ?v1 = 8" "length ?v2 = 8" "distinct ?v1" "distinct ?v2" "(5::nat) < 6" "(0::nat) < 6"
    by simp_all
  have n5: "cell_face_verts ?v1 hexahedron_fis ! 5 = [7, 4, 5, 6]"
    unfolding F1 by simp
  have c0: "length (ugcells \<lparr>ugfaces = [], ugcells = []\<rparr>) = 0" "ugfaces \<lparr>ugfaces = [], ugcells = []\<rparr> = []"
    by simp_all
  from C2_two_hexahedra_share_one_face [OF h shared only, of "[]" "[]" "\<lparr>ugfaces = [], ugcells = []\<rparr>"]
  show ?thesis unfolding n5 c0 .
qed

section \<open>PolyMesh import: owners, neighbours and boundary polygons\<close>

lemma faces_loop_append:
  "faces_loop g ol nl fv (xs @ ys) acc =
     (case faces_loop g ol nl fv xs acc of
        Inl e \<Rightarrow> Inl e
      | Inr acc1 \<Rightarrow> faces_loop g ol nl fv ys acc1)"
  by (induction xs arbitrary: acc) (simp_all split: sum.splits)

lemma faces_in_range_Suc:
  "faces_in_range ol nl n (Suc k) \<longleftrightarrow>
     faces_in_range ol nl n k \<and> k < length ol \<and> ol ! k < n \<and> (k < length nl \<longrightarrow> nl ! k < n)"
  by (auto simp: faces_in_range_def)

lemma append_cell_face_simps [simp]:
  "pm_ugfaces (append_cell_face c i st) = pm_ugfaces st"
  "length (pm_ugcells (append_cell_face c i st)) = length (pm_ugcells st)"
  "ugboundaries (append_cell_face c i st) = ugboundaries st"
  by (simp_all add: append_cell_face_def)

lemma append_cell_face_faces:
  "c < length (pm_ugcells st) \<Longrightarrow>
   faces (pm_ugcells (append_cell_face c i st) ! d) =
     (if d = c then faces (pm_ugcells st ! d) @ [i] else faces (pm_ugcells st ! d))"
  by (simp add: append_cell_face_def)

lemma face_step_ok:
  assumes "i < length ol" and "ol ! i < length (pm_ugcells st)"
    and "i < length nl \<longrightarrow> nl ! i < length (pm_ugcells st)"
  shows "\<exists>st' edges'. face_step g ol nl fv i (st, edges, polys) =
             Inr (st', edges', if i < length nl then polys else polys @ [fv ! i]) \<and>
           pm_ugfaces st' = pm_ugfaces st @ [imported_face ol nl fv i] \<and>
           length (pm_ugcells st') = length (pm_ugcells st) \<and>
           ugboundaries st' = ugboundaries st \<and>
           (\<forall>d. set (faces (pm_ugcells st ! d)) \<subseteq> set (faces (pm_ugcells st' ! d))) \<and>
           i \<in> set (faces (pm_ugcells st' ! (ol ! i))) \<and>
           (i < length nl \<longrightarrow> i \<in> set (faces (pm_ugcells st' ! (nl ! i))))"
proof (cases "i < length nl")
  case True
  with assms show ?thesis
    by (auto simp: face_step_def Let_def imported_face_def UGFace_pm_def append_cell_face_faces)
next
  case False
  with assms show ?thesis
    by (auto simp: face_step_def Let_def imported_face_def UGFace_pm_def append_cell_face_faces)
qed

lemma face_step_fails:
  assumes "\<not> (i < length ol \<and> ol ! i < length (pm_ugcells st) \<and>
              (i < length nl \<longrightarrow> nl ! i < length (pm_ugcells st)))"
  shows "\<exists>e. face_step g ol nl fv i (st, edges, polys) = Inl e"
  using assms by (auto simp: face_step_def Let_def)

lemma faces_loop_ok:
  assumes "faces_in_range ol nl (length (pm_ugcells st)) k" and "k \<le> length fv"
  shows "\<exists>st' edges'. faces_loop g ol nl fv [0..<k] (st, edges, polys) =
             Inr (st', edges', polys @ drop (length nl) (take k fv)) \<and>
           pm_ugfaces st' = pm_ugfaces st @ map (imported_face ol nl fv) [0..<k] \<and>
           length (pm_ugcells st') = length (pm_ugcells st) \<and>
           ugboundaries st' = ugboundaries st \<and>
           (\<forall>d. set (faces (pm_ugcells st ! d)) \<subseteq> set (faces (pm_ugcells st' ! d))) \<and>
           (\<forall>i < k. i \<in> set (faces (pm_ugcells st' ! (ol ! i))) \<and>
                     (i < length nl \<longrightarrow> i \<in> set (faces (pm_ugcells st' ! (nl ! i)))))"
  using assms
proof (induction k)
  case 0
  then show ?case by simp
next
  case (Suc k)
  from Suc.prems have r: "faces_in_range ol nl (length (pm_ugcells st)) k" and kl: "k \<le> length fv"
    and k: "k < length ol" "ol ! k < length (pm_ugcells st)"
      "k < length nl \<longrightarrow> nl ! k < length (pm_ugcells st)" and kf: "k < length fv"
    by (simp_all add: faces_in_range_Suc)
  from Suc.IH [OF r kl] obtain st1 edges1 where
    l1: "faces_loop g ol nl fv [0..<k] (st, edges, polys) = Inr (st1, edges1, polys @ drop (length nl) (take k fv))"
    and f1: "pm_ugfaces st1 = pm_ugfaces st @ map (imported_face ol nl fv) [0..<k]"
    and n1: "length (pm_ugcells st1) = length (pm_ugcells st)"
    and b1: "ugboundaries st1 = ugboundaries st"
    and m1: "\<forall>d. set (faces (pm_ugcells st ! d)) \<subseteq> set (faces (pm_ugcells st1 ! d))"
    and i1: "\<forall>i < k. i \<in> set (faces (pm_ugcells st1 ! (ol ! i))) \<and>
                     (i < length nl \<longrightarrow> i \<in> set (faces (pm_ugcells st1 ! (nl ! i))))"
    by blast
  let ?polys1 = "polys @ drop (length nl) (take k fv)"
  from face_step_ok [of k ol st1 nl g fv edges1 ?polys1] k n1 obtain st2 edges2 where
    s2: "face_step g ol nl fv k (st1, edges1, ?polys1) =
           Inr (st2, edges2, if k < length nl then ?polys1 else ?polys1 @ [fv ! k])"
    and f2: "pm_ugfaces st2 = pm_ugfaces st1 @ [imported_face ol nl fv k]"
    and n2: "length (pm_ugcells st2) = length (pm_ugcells st1)"
    and b2: "ugboundaries st2 = ugboundaries st1"
    and m2: "\<forall>d. set (faces (pm_ugcells st1 ! d)) \<subseteq> set (faces (pm_ugcells st2 ! d))"
    and i2: "k \<in> set (faces (pm_ugcells st2 ! (ol ! k)))"
      "k < length nl \<longrightarrow> k \<in> set (faces (pm_ugcells st2 ! (nl ! k)))"
    by auto
  have polys: "(if k < length nl then ?polys1 else ?polys1 @ [fv ! k]) =
      polys @ drop (length nl) (take (Suc k) fv)"
    using kf by (simp add: take_Suc_conv_app_nth)
  have loop: "faces_loop g ol nl fv [0..<Suc k] (st, edges, polys) =
      Inr (st2, edges2, polys @ drop (length nl) (take (Suc k) fv))"
    using l1 s2 polys by (simp add: faces_loop_append)
  have f: "pm_ugfaces st2 = pm_ugfaces st @ map (imported_face ol nl fv) [0..<Suc k]"
    using f1 f2 by simp
  have m: "\<forall>d. set (faces (pm_ugcells st ! d)) \<subseteq> set (faces (pm_ugcells st2 ! d))"
    using m1 m2 by blast
  have mem: "i \<in> set (faces (pm_ugcells st2 ! (ol ! i))) \<and>
             (i < length nl \<longrightarrow> i \<in> set (faces (pm_ugcells st2 ! (nl ! i))))" if "i < Suc k" for i
  proof (cases "i = k")
    case True
    with i2 show ?thesis by simp
  next
    case False
    with that have "i < k" by simp
    with i1 m2 show ?thesis by blast
  qed
  from loop f n1 n2 b1 b2 m mem show ?case by auto
qed

lemma faces_loop_fails:
  assumes "\<not> faces_in_range ol nl (length (pm_ugcells st)) k" and "k \<le> length fv"
  shows "\<exists>e. faces_loop g ol nl fv [0..<k] (st, edges, polys) = Inl e"
  using assms
proof (induction k)
  case 0
  then show ?case by (simp add: faces_in_range_def)
next
  case (Suc k)
  show ?case
  proof (cases "faces_in_range ol nl (length (pm_ugcells st)) k")
    case False
    with Suc obtain e where "faces_loop g ol nl fv [0..<k] (st, edges, polys) = Inl e" by auto
    then show ?thesis by (simp add: faces_loop_append)
  next
    case True
    from faces_loop_ok [OF True, of fv g edges polys] Suc.prems(2) obtain st1 edges1 polys1 where
      l1: "faces_loop g ol nl fv [0..<k] (st, edges, polys) = Inr (st1, edges1, polys1)"
      and n1: "length (pm_ugcells st1) = length (pm_ugcells st)"
      by auto
    from True Suc.prems(1) have "\<not> (k < length ol \<and> ol ! k < length (pm_ugcells st1) \<and>
              (k < length nl \<longrightarrow> nl ! k < length (pm_ugcells st1)))"
      by (simp add: faces_in_range_Suc n1)
    from face_step_fails [OF this] obtain e where "face_step g ol nl fv k (st1, edges1, polys1) = Inl e"
      by blast
    with l1 show ?thesis by (simp add: faces_loop_append)
  qed
qed

text \<open>
  C3, as the code has it. \<^verbatim>\<open>polymesh_get_faces\<close> returns exactly when the owner list is not empty and no index
  of its loop is out of range. When it returns: the owner list is not empty and
  \<^verbatim>\<open>max(owner) + 1\<close> cells were created; one face per entry of \<^verbatim>\<open>face_verts\<close> was
  created; the face \<open>i\<close> has the owner \<^verbatim>\<open>owner[i]\<close> and is in the face list of that cell;
  it has a neighbour exactly when \<^verbatim>\<open>i < len(neighbour)\<close>, and then the neighbour is
  \<^verbatim>\<open>neighbour[i]\<close> and the face is in that cell's face list too; and the boundary
  polygons returned are exactly the faces with \<^verbatim>\<open>i >= len(neighbour)\<close>, in their order.
\<close>

theorem C3_polymesh_get_faces:
  "((\<exists>r. polymesh_get_faces g ol nl fv st = Inr r) \<longleftrightarrow>
      ol \<noteq> [] \<and> faces_in_range ol nl (length (pm_ugcells st) + (Max (set ol) + 1)) (length fv)) \<and>
   (\<forall>st' edges polys. polymesh_get_faces g ol nl fv st = Inr (st', edges, polys) \<longrightarrow>
      ol \<noteq> [] \<and>
      length (pm_ugcells st') = length (pm_ugcells st) + (Max (set ol) + 1) \<and>
      length (pm_ugfaces st') = length (pm_ugfaces st) + length fv \<and>
      (\<forall>i < length fv.
         owneri (pm_ugfaces st' ! (length (pm_ugfaces st) + i)) = int (ol ! i) \<and>
         verts (pm_ugfaces st' ! (length (pm_ugfaces st) + i)) = fv ! i \<and>
         i \<in> set (faces (pm_ugcells st' ! (ol ! i))) \<and>
         (neighbouri (pm_ugfaces st' ! (length (pm_ugfaces st) + i)) \<noteq> - 1 \<longleftrightarrow> i < length nl) \<and>
         (i < length nl \<longrightarrow>
            neighbouri (pm_ugfaces st' ! (length (pm_ugfaces st) + i)) = int (nl ! i) \<and>
            i \<in> set (faces (pm_ugcells st' ! (nl ! i))))) \<and>
      polys = drop (length nl) fv)"
proof (cases "ol = []")
  case True
  then show ?thesis by (simp add: polymesh_get_faces_def)
next
  case ne: False
  define st1 where "st1 = st\<lparr>pm_ugcells := pm_ugcells st @
                      map (\<lambda>i. UGCell_pm (int i)) [0..<Max (set ol) + 1]\<rparr>"
  have n1: "length (pm_ugcells st1) = length (pm_ugcells st) + (Max (set ol) + 1)"
    and f1: "pm_ugfaces st1 = pm_ugfaces st"
    by (simp_all add: st1_def)
  have run: "polymesh_get_faces g ol nl fv st = faces_loop g ol nl fv [0..<length fv] (st1, [], [])"
    using ne by (simp add: polymesh_get_faces_def st1_def Let_def)
  show ?thesis
  proof (cases "faces_in_range ol nl (length (pm_ugcells st1)) (length fv)")
    case False
    from faces_loop_fails [OF False order_refl, of g "[]" "[]"] obtain e where
      "polymesh_get_faces g ol nl fv st = Inl e" unfolding run by blast
    with False n1 show ?thesis by simp
  next
    case True
    from faces_loop_ok [OF True order_refl, of g "[]" "[]"] obtain st2 edges2 where
      l: "polymesh_get_faces g ol nl fv st = Inr (st2, edges2, drop (length nl) fv)"
      and f: "pm_ugfaces st2 = pm_ugfaces st1 @ map (imported_face ol nl fv) [0..<length fv]"
      and n: "length (pm_ugcells st2) = length (pm_ugcells st1)"
      and mem: "\<forall>i < length fv. i \<in> set (faces (pm_ugcells st2 ! (ol ! i))) \<and>
                     (i < length nl \<longrightarrow> i \<in> set (faces (pm_ugcells st2 ! (nl ! i))))"
      unfolding run by auto
    have face: "pm_ugfaces st2 ! (length (pm_ugfaces st) + i) = imported_face ol nl fv i"
      if "i < length fv" for i
      using that f f1 by (simp add: nth_append)
    have props: "owneri (pm_ugfaces st2 ! (length (pm_ugfaces st) + i)) = int (ol ! i) \<and>
         verts (pm_ugfaces st2 ! (length (pm_ugfaces st) + i)) = fv ! i \<and>
         i \<in> set (faces (pm_ugcells st2 ! (ol ! i))) \<and>
         (neighbouri (pm_ugfaces st2 ! (length (pm_ugfaces st) + i)) \<noteq> - 1 \<longleftrightarrow> i < length nl) \<and>
         (i < length nl \<longrightarrow>
            neighbouri (pm_ugfaces st2 ! (length (pm_ugfaces st) + i)) = int (nl ! i) \<and>
            i \<in> set (faces (pm_ugcells st2 ! (nl ! i))))" if "i < length fv" for i
      using mem that unfolding face [OF that] by (simp add: imported_face_def)
    have len: "length (pm_ugfaces st2) = length (pm_ugfaces st) + length fv"
      using f f1 by simp
    have first: "(\<exists>r. polymesh_get_faces g ol nl fv st = Inr r) \<longleftrightarrow>
      ol \<noteq> [] \<and> faces_in_range ol nl (length (pm_ugcells st) + (Max (set ol) + 1)) (length fv)"
      using l ne True n1 by simp
    have second: "ol \<noteq> [] \<and>
      length (pm_ugcells st') = length (pm_ugcells st) + (Max (set ol) + 1) \<and>
      length (pm_ugfaces st') = length (pm_ugfaces st) + length fv \<and>
      (\<forall>i < length fv.
         owneri (pm_ugfaces st' ! (length (pm_ugfaces st) + i)) = int (ol ! i) \<and>
         verts (pm_ugfaces st' ! (length (pm_ugfaces st) + i)) = fv ! i \<and>
         i \<in> set (faces (pm_ugcells st' ! (ol ! i))) \<and>
         (neighbouri (pm_ugfaces st' ! (length (pm_ugfaces st) + i)) \<noteq> - 1 \<longleftrightarrow> i < length nl) \<and>
         (i < length nl \<longrightarrow>
            neighbouri (pm_ugfaces st' ! (length (pm_ugfaces st) + i)) = int (nl ! i) \<and>
            i \<in> set (faces (pm_ugcells st' ! (nl ! i))))) \<and>
      polys = drop (length nl) fv"
      if "polymesh_get_faces g ol nl fv st = Inr (st', edges, polys)" for st' edges polys
    proof -
      from that l have eq: "st' = st2" "polys = drop (length nl) fv" by simp_all
      have cells: "length (pm_ugcells st2) = length (pm_ugcells st) + (Max (set ol) + 1)"
        using n n1 by simp
      from props have "\<forall>i < length fv.
         owneri (pm_ugfaces st2 ! (length (pm_ugfaces st) + i)) = int (ol ! i) \<and>
         verts (pm_ugfaces st2 ! (length (pm_ugfaces st) + i)) = fv ! i \<and>
         i \<in> set (faces (pm_ugcells st2 ! (ol ! i))) \<and>
         (neighbouri (pm_ugfaces st2 ! (length (pm_ugfaces st) + i)) \<noteq> - 1 \<longleftrightarrow> i < length nl) \<and>
         (i < length nl \<longrightarrow>
            neighbouri (pm_ugfaces st2 ! (length (pm_ugfaces st) + i)) = int (nl ! i) \<and>
            i \<in> set (faces (pm_ugcells st2 ! (nl ! i))))"
        by (intro allI impI)
      with ne cells len show ?thesis unfolding eq by (intro conjI) simp_all
    qed
    show ?thesis
    proof (rule conjI)
      show "(\<exists>r. polymesh_get_faces g ol nl fv st = Inr r) \<longleftrightarrow>
        ol \<noteq> [] \<and> faces_in_range ol nl (length (pm_ugcells st) + (Max (set ol) + 1)) (length fv)"
        by (rule first)
    next
      show "\<forall>st' edges polys. polymesh_get_faces g ol nl fv st = Inr (st', edges, polys) \<longrightarrow>
      ol \<noteq> [] \<and>
      length (pm_ugcells st') = length (pm_ugcells st) + (Max (set ol) + 1) \<and>
      length (pm_ugfaces st') = length (pm_ugfaces st) + length fv \<and>
      (\<forall>i < length fv.
         owneri (pm_ugfaces st' ! (length (pm_ugfaces st) + i)) = int (ol ! i) \<and>
         verts (pm_ugfaces st' ! (length (pm_ugfaces st) + i)) = fv ! i \<and>
         i \<in> set (faces (pm_ugcells st' ! (ol ! i))) \<and>
         (neighbouri (pm_ugfaces st' ! (length (pm_ugfaces st) + i)) \<noteq> - 1 \<longleftrightarrow> i < length nl) \<and>
         (i < length nl \<longrightarrow>
            neighbouri (pm_ugfaces st' ! (length (pm_ugfaces st) + i)) = int (nl ! i) \<and>
            i \<in> set (faces (pm_ugcells st' ! (nl ! i))))) \<and>
      polys = drop (length nl) fv"
        using second by (intro allI impI)
    qed
  qed
qed

theorem C3_polymesh_get_faces_witness:
  "\<exists>st' edges polys.
     polymesh_get_faces False [0, 0, 1, 0, 1] [1] [[0, 1, 2], [1, 2, 3], [2, 3, 4], [3, 4, 5], [4, 5, 6]]
       \<lparr>pm_ugcells = [], pm_ugfaces = [], ugboundaries = []\<rparr> = Inr (st', edges, polys) \<and>
     length (pm_ugcells st') = 2 \<and>
     length (pm_ugfaces st') = 5 \<and>
     owneri (pm_ugfaces st' ! 2) = 1 \<and>
     2 \<in> set (faces (pm_ugcells st' ! 1)) \<and>
     neighbouri (pm_ugfaces st' ! 0) = 1 \<and>
     0 \<in> set (faces (pm_ugcells st' ! 1)) \<and>
     neighbouri (pm_ugfaces st' ! 1) = - 1 \<and>
     polys = [[1, 2, 3], [2, 3, 4], [3, 4, 5], [4, 5, 6]]"
proof -
  let ?ol = "[0, 0, 1, 0, 1] :: nat list"
  let ?nl = "[1] :: nat list"
  let ?fv = "[[0, 1, 2], [1, 2, 3], [2, 3, 4], [3, 4, 5], [4, 5, 6]] :: nat list list"
  let ?st = "\<lparr>pm_ugcells = [], pm_ugfaces = [], ugboundaries = []\<rparr>"
  have mx: "Max (set ?ol) = 1" by code_simp
  have ne: "?ol \<noteq> []" by simp
  have wf: "faces_in_range ?ol ?nl (length (pm_ugcells ?st) + (Max (set ?ol) + 1)) (length ?fv)"
    by code_simp
  note inst = C3_polymesh_get_faces [of False ?ol ?nl ?fv ?st]
  from inst [THEN conjunct1, THEN iffD2, OF conjI [OF ne wf]]
  obtain st' edges polys where r: "polymesh_get_faces False ?ol ?nl ?fv ?st = Inr (st', edges, polys)"
    by (metis prod_cases3)
  note res = inst [THEN conjunct2, rule_format, OF r]
  have c: "length (pm_ugcells st') = 2" using res mx by simp
  have f: "length (pm_ugfaces st') = 5" using res by simp
  have p: "polys = [[1, 2, 3], [2, 3, 4], [3, 4, 5], [4, 5, 6]]" using res by simp
  note each = res [THEN conjunct2, THEN conjunct2, THEN conjunct2, THEN conjunct1, rule_format]
  have e2: "owneri (pm_ugfaces st' ! 2) = 1 \<and> 2 \<in> set (faces (pm_ugcells st' ! 1))"
    using each [of 2] by (simp add: numeral_2_eq_2)
  have e0: "neighbouri (pm_ugfaces st' ! 0) = 1 \<and> 0 \<in> set (faces (pm_ugcells st' ! 1))"
    using each [of 0] by simp
  have e1: "neighbouri (pm_ugfaces st' ! 1) = - 1"
    using each [of 1] by simp
  from r c f p e0 e1 e2 show ?thesis by blast
qed

text \<open>
  An owner list of one entry with two faces: the owner list is not empty, but the second
  face has no owner entry. The import ends with \<open>IndexError\<close>; the second face is in the
  store without an owner and in no cell's face list, and no boundary polygon is returned.
\<close>

theorem C3_counterexample:
  "polymesh_get_faces False [0] [] [[0, 1, 2], [1, 2, 3]]
     \<lparr>pm_ugcells = [], pm_ugfaces = [], ugboundaries = []\<rparr> =
   Inl (IndexError,
        \<lparr>pm_ugcells = [\<lparr>celli = 0, faces = [0]\<rparr>],
         pm_ugfaces =
           [\<lparr>facei = 0, verts = [0, 1, 2], owneri = 0, neighbouri = - 1, mati = - 1, deleted = False\<rparr>,
            \<lparr>facei = 1, verts = [1, 2, 3], owneri = - 1, neighbouri = - 1, mati = - 1, deleted = False\<rparr>],
         ugboundaries = []\<rparr>)"
  by code_simp

section \<open>PolyMesh export: the owner list and the boundary ranges\<close>

text \<open>
  C5, on two meshes. The first is the import of two faces, one internal and one on the
  boundary: the count line of the owner text is 3 (\<^verbatim>\<open>ninternal + nneighbour\<close>, where
  \<^verbatim>\<open>internal_faces\<close> holds every non-deleted face), and two owner entries follow it. The
  second mesh stores a boundary face before an internal face: \<^verbatim>\<open>update_text_faces\<close> gives
  the internal face the export index 0 and the boundary face the export index 1, so the
  owners in the order of the faces block are 0, 1, and the owner text lists 1, 0 (the order
  of storage).
\<close>

theorem C5_owner_list_diverges:
  "polymesh_get_faces False [0, 1] [1] [[0, 1, 2], [1, 2, 3]]
     \<lparr>pm_ugcells = [], pm_ugfaces = [], ugboundaries = []\<rparr> =
   Inr (\<lparr>pm_ugcells = [\<lparr>celli = 0, faces = [0]\<rparr>, \<lparr>celli = 1, faces = [0, 1]\<rparr>],
         pm_ugfaces =
           [\<lparr>facei = 0, verts = [0, 1, 2], owneri = 0, neighbouri = 1, mati = - 1, deleted = False\<rparr>,
            \<lparr>facei = 1, verts = [1, 2, 3], owneri = 1, neighbouri = - 1, mati = - 1, deleted = False\<rparr>],
         ugboundaries = []\<rparr>, [], [[1, 2, 3]]) \<and>
   owner_count_line
     \<lparr>pm_ugcells = [\<lparr>celli = 0, faces = [0]\<rparr>, \<lparr>celli = 1, faces = [0, 1]\<rparr>],
      pm_ugfaces =
        [\<lparr>facei = 0, verts = [0, 1, 2], owneri = 0, neighbouri = 1, mati = - 1, deleted = False\<rparr>,
         \<lparr>facei = 1, verts = [1, 2, 3], owneri = 1, neighbouri = - 1, mati = - 1, deleted = False\<rparr>],
      ugboundaries = []\<rparr> = 3 \<and>
   fst (update_text_owner_neighbour
     \<lparr>pm_ugcells = [\<lparr>celli = 0, faces = [0]\<rparr>, \<lparr>celli = 1, faces = [0, 1]\<rparr>],
      pm_ugfaces =
        [\<lparr>facei = 0, verts = [0, 1, 2], owneri = 0, neighbouri = 1, mati = - 1, deleted = False\<rparr>,
         \<lparr>facei = 1, verts = [1, 2, 3], owneri = 1, neighbouri = - 1, mati = - 1, deleted = False\<rparr>],
      ugboundaries = []\<rparr>) =
     of_file_header ''labelList'' ''owner'' @ newline @
     ''3'' @ newline @ ''('' @ newline @ ''0'' @ newline @ ''1'' @ newline @ '')'' @ newline \<and>
   map_sum fst (\<lambda>r. map (\<lambda>f. (facei f, owneri f)) (pm_ugfaces (snd r)))
     (update_text_faces
        \<lparr>pm_ugcells = [\<lparr>celli = 0, faces = [1]\<rparr>, \<lparr>celli = 1, faces = [0, 1]\<rparr>],
         pm_ugfaces =
           [\<lparr>facei = 0, verts = [0, 1, 2], owneri = 1, neighbouri = - 1, mati = 0, deleted = False\<rparr>,
            \<lparr>facei = 1, verts = [1, 2, 3], owneri = 0, neighbouri = 1, mati = - 1, deleted = False\<rparr>],
         ugboundaries = []\<rparr>) = Inr [(1, 1), (0, 0)] \<and>
   map owneri (internal_faces
        \<lparr>pm_ugcells = [\<lparr>celli = 0, faces = [1]\<rparr>, \<lparr>celli = 1, faces = [0, 1]\<rparr>],
         pm_ugfaces =
           [\<lparr>facei = 0, verts = [0, 1, 2], owneri = 1, neighbouri = - 1, mati = 0, deleted = False\<rparr>,
            \<lparr>facei = 1, verts = [1, 2, 3], owneri = 0, neighbouri = 1, mati = - 1, deleted = False\<rparr>],
         ugboundaries = []\<rparr>) = [1, 0]"
  by code_simp

text \<open>
  C4, on a mesh of three boundary faces stored with the patch indices 0, 1, 0 and two
  patches. The faces get the export indices 0, 1, 2 in the order of storage
  (\<^verbatim>\<open>face_pass\<close> has no pass per boundary), and \<^verbatim>\<open>update_text_boundary\<close> emits
  \<^verbatim>\<open>nFaces 2, startFace 0\<close> for the first patch and \<^verbatim>\<open>nFaces 1, startFace 1\<close> for the
  second: the ranges \<open>[0, 2)\<close> and \<open>[1, 2)\<close> overlap and miss the face 2.
\<close>

theorem C4_patch_ranges_overlap:
  "map_sum fst (\<lambda>r. (map facei (pm_ugfaces (snd r)), patch_range (snd r) 0, patch_range (snd r) 1))
     (update_text_faces
        \<lparr>pm_ugcells = [\<lparr>celli = 0, faces = [0, 1, 2]\<rparr>],
         pm_ugfaces =
           [\<lparr>facei = 0, verts = [0, 1, 2], owneri = 0, neighbouri = - 1, mati = 0, deleted = False\<rparr>,
            \<lparr>facei = 1, verts = [1, 2, 3], owneri = 0, neighbouri = - 1, mati = 1, deleted = False\<rparr>,
            \<lparr>facei = 2, verts = [2, 3, 0], owneri = 0, neighbouri = - 1, mati = 0, deleted = False\<rparr>],
         ugboundaries =
           [\<lparr>patchname = ''inlet'', typename = ''patch'', inGroups = [], patch_deleted = False\<rparr>,
            \<lparr>patchname = ''walls'', typename = ''wall'', inGroups = [], patch_deleted = False\<rparr>]\<rparr>) =
   Inr ([0, 1, 2], Inr (2, 0), Inr (1, 1)) \<and>
   (case update_text_faces
        \<lparr>pm_ugcells = [\<lparr>celli = 0, faces = [0, 1, 2]\<rparr>],
         pm_ugfaces =
           [\<lparr>facei = 0, verts = [0, 1, 2], owneri = 0, neighbouri = - 1, mati = 0, deleted = False\<rparr>,
            \<lparr>facei = 1, verts = [1, 2, 3], owneri = 0, neighbouri = - 1, mati = 1, deleted = False\<rparr>,
            \<lparr>facei = 2, verts = [2, 3, 0], owneri = 0, neighbouri = - 1, mati = 0, deleted = False\<rparr>],
         ugboundaries =
           [\<lparr>patchname = ''inlet'', typename = ''patch'', inGroups = [], patch_deleted = False\<rparr>,
            \<lparr>patchname = ''walls'', typename = ''wall'', inGroups = [], patch_deleted = False\<rparr>]\<rparr> of
      Inl e \<Rightarrow> Inl (fst e)
    | Inr r \<Rightarrow> update_text_boundary (snd r)) =
   Inr (of_file_header ''polyBoundaryMesh'' ''boundary'' @ newline @
        ''2'' @ newline @ ''('' @ newline @
        patch_text \<lparr>patchname = ''inlet'', typename = ''patch'', inGroups = [], patch_deleted = False\<rparr> 2 0 @
        patch_text \<lparr>patchname = ''walls'', typename = ''wall'', inGroups = [], patch_deleted = False\<rparr> 1 1 @
        '')'' @ newline)"
  by code_simp

end
